theory Spec2Isabelle
  imports Complex_Main "HOL-Library.Sublist"
begin

section \<open>Strings and paths of the browser client\<close>

text \<open>
  JavaScript strings are modelled as \<open>string\<close>. The client only tests strings for
  emptiness, concatenates them, and looks at the two separator characters, slash and
  backslash, both of which are single units in every encoding of the page.
  A string is "truthy" exactly when it is non-empty.
\<close>

definition normalizeSeparators :: "string \<Rightarrow> string" where
  \<comment> \<open>\<^verbatim>\<open>s.replace(/\\/g, '/')\<close>: every backslash becomes a slash\<close>
  "normalizeSeparators s = map (\<lambda>c. if c = CHR 0x5C then CHR ''/'' else c) s"

definition firstSegment :: "string \<Rightarrow> string" where
  \<comment> \<open>\<^verbatim>\<open>s.split('/')[0]\<close>: the text before the first slash\<close>
  "firstSegment s = takeWhile (\<lambda>c. c \<noteq> CHR ''/'') s"

definition stripSlashes :: "string \<Rightarrow> string" where
  \<comment> \<open>\<^verbatim>\<open>s.replace(/^\/+|\/+$/g, '')\<close>: drop the leading and the trailing run of slashes\<close>
  "stripSlashes s =
     rev (dropWhile (\<lambda>c. c = CHR ''/'') (rev (dropWhile (\<lambda>c. c = CHR ''/'') s)))"

definition joinPath :: "string \<Rightarrow> string \<Rightarrow> string" where
  \<comment> \<open>\<^verbatim>\<open>targetPath ? `${targetPath}/${p}` : p\<close>\<close>
  "joinPath targetPath p = (if targetPath \<noteq> [] then targetPath @ ''/'' @ p else p)"

section \<open>Single-file transfer: \<open>uploadFileWithProgress\<close>\<close>

record upload_file =
  file_name :: string
  webkitRelativePath :: string
  file_size :: nat

text \<open>
  What the network does with one \<open>XMLHttpRequest\<close>: the upload progress events it
  dispatches, in order, and the one event that ends the request (\<open>load\<close> with the
  HTTP status, \<open>error\<close> or \<open>abort\<close>). No timeout is set on the request.
\<close>

record progress_event =
  lengthComputable :: bool
  ev_loaded :: nat
  ev_total :: nat

datatype xhr_completion = Load int | NetworkError | Aborted

record transfer =
  progressEvents :: "progress_event list"
  completion :: xhr_completion

datatype 'a promise = Resolved 'a | Rejected string

record upload_response =
  ok :: bool
  status :: int

definition uploadFileWithProgress ::
  "transfer \<Rightarrow> (nat \<times> nat) list \<times> upload_response promise" where
  \<comment> \<open>the \<open>onProgress\<close> calls made, and how the returned promise settles\<close>
  "uploadFileWithProgress t =
     (map (\<lambda>e. (ev_loaded e, ev_total e)) (filter lengthComputable (progressEvents t)),
      (case completion t of
         Load st \<Rightarrow>
           (if 200 \<le> st \<and> st < 300 then Resolved \<lparr>ok = True, status = st\<rparr>
            else Resolved \<lparr>ok = False, status = st\<rparr>)
       | NetworkError \<Rightarrow> Rejected ''Network error''
       | Aborted \<Rightarrow> Rejected ''Upload aborted''))"

section \<open>Progress display: \<open>updateProgressUI\<close>\<close>

text \<open>
  Byte counts are natural numbers; below \<open>2^53\<close> a JavaScript number holds them
  exactly. The percentage is computed in double precision: the quotient
  \<open>totalLoaded / grandTotal\<close> is rounded to the nearest double, its product with 100 is
  rounded again, and \<open>Math.round\<close> takes the nearest integer of that double, halves
  upwards. The quotient is formed only when the grand total is positive.

  A double is modelled by the rational number it stands for. \<open>toDouble\<close> rounds a
  rational to the nearest number with a significand of 53 bits, ties to the even
  significand, as IEEE 754 binary64 arithmetic does for every result in its normal
  range; the exponent is not bounded, so overflow and subnormal numbers, which no
  quotient of byte counts below \<open>2^53\<close> reaches, are not modelled.
  \<open>doublings x\<close> and \<open>halvings x\<close> count how often \<open>x\<close> is doubled or halved to bring
  it into the range from \<open>2^52\<close> to \<open>2^53\<close>, where the representable numbers are the
  integers.
\<close>

definition roundHalfEven :: "rat \<Rightarrow> int" where
  "roundHalfEven s =
     (let f = \<lfloor>s\<rfloor>; r = s - of_int f
      in if r < 1 / 2 then f else if 1 / 2 < r then f + 1 else if even f then f else f + 1)"

function doublings :: "rat \<Rightarrow> nat" where
  "doublings x = (if 0 < x \<and> x < 2 ^ 52 then Suc (doublings (2 * x)) else 0)"
  by pat_completeness auto
termination
proof (relation "measure (\<lambda>x. nat \<lfloor>2 ^ 53 / x\<rfloor>)")
  show "wf (measure (\<lambda>x::rat. nat \<lfloor>2 ^ 53 / x\<rfloor>))"
    by simp
next
  fix x :: rat
  assume x: "0 < x \<and> x < 2 ^ 52"
  let ?y = "2 ^ 53 / x"
  have y: "2 < ?y"
    using x by (simp add: pos_less_divide_eq)
  then have "?y / 2 < ?y - 1"
    by simp
  also have "\<dots> < of_int \<lfloor>?y\<rfloor>"
    by linarith
  finally have "\<lfloor>?y / 2\<rfloor> < \<lfloor>?y\<rfloor>"
    by (simp add: floor_less_iff)
  moreover have "0 < \<lfloor>?y\<rfloor>"
    using y by simp
  ultimately have "nat \<lfloor>?y / 2\<rfloor> < nat \<lfloor>?y\<rfloor>"
    by simp
  then show "(2 * x, x) \<in> measure (\<lambda>x. nat \<lfloor>2 ^ 53 / x\<rfloor>)"
    by (simp add: field_simps)
qed

function halvings :: "rat \<Rightarrow> nat" where
  "halvings x = (if 2 ^ 53 \<le> x then Suc (halvings (x / 2)) else 0)"
  by pat_completeness auto
termination
proof (relation "measure (\<lambda>x. nat \<lfloor>x\<rfloor>)")
  show "wf (measure (\<lambda>x::rat. nat \<lfloor>x\<rfloor>))"
    by simp
next
  fix x :: rat
  assume "2 ^ 53 \<le> x"
  then have x: "2 < x"
    by simp
  then have "x / 2 < x - 1"
    by simp
  also have "\<dots> < of_int \<lfloor>x\<rfloor>"
    by linarith
  finally have "\<lfloor>x / 2\<rfloor> < \<lfloor>x\<rfloor>"
    by (simp add: floor_less_iff)
  moreover have "0 < \<lfloor>x\<rfloor>"
    using x by simp
  ultimately show "(x / 2, x) \<in> measure (\<lambda>x. nat \<lfloor>x\<rfloor>)"
    by simp
qed

definition ulpExponent :: "rat \<Rightarrow> int" where
  \<comment> \<open>the exponent of the unit in the last place of a positive \<open>x\<close>\<close>
  "ulpExponent x = int (halvings x) - int (doublings x)"

definition toDouble :: "rat \<Rightarrow> rat" where
  "toDouble x =
     (if x = 0 then 0
      else if x < 0
        then - (of_int (roundHalfEven (- x / 2 powi ulpExponent (- x))) * 2 powi ulpExponent (- x))
      else of_int (roundHalfEven (x / 2 powi ulpExponent x)) * 2 powi ulpExponent x)"

definition Math_round :: "rat \<Rightarrow> int" where
  "Math_round x = \<lfloor>x + 1 / 2\<rfloor>"

record progress_ui =
  overallPercent :: int
  progressBytes :: "nat \<times> nat"
  progressLabel :: string
  progressFile :: "nat \<times> nat"

definition overallPercentOf :: "nat \<Rightarrow> nat \<Rightarrow> int" where
  \<comment> \<open>\<^verbatim>\<open>grandTotal > 0 ? Math.round((totalLoaded / grandTotal) * 100) : 0\<close>\<close>
  "overallPercentOf totalLoaded grandTotal =
     (if grandTotal > 0
      then Math_round (toDouble (toDouble (of_nat totalLoaded / of_nat grandTotal) * 100))
      else 0)"

definition updateProgressUI ::
  "nat \<Rightarrow> nat \<Rightarrow> string \<Rightarrow> nat \<Rightarrow> nat \<Rightarrow> nat \<Rightarrow> nat \<Rightarrow> progress_ui" where
  "updateProgressUI currentFile totalFiles fileName loaded total' totalLoaded grandTotal =
     \<lparr>overallPercent = overallPercentOf totalLoaded grandTotal,
      progressBytes = (totalLoaded, grandTotal),
      progressLabel = ''Uploading: '' @ fileName,
      progressFile = (currentFile, totalFiles)\<rparr>"

section \<open>Batch upload: \<open>performUpload\<close>\<close>

text \<open>
  The values \<open>performUpload\<close> reads from the page. An element that is absent reads as
  \<open>undefined\<close>, which every test of the function treats like the empty string, the
  empty file list or an unchecked box; the record holds the value read.
  \<open>uploadTargetFolder\<close> is the field's value after \<open>trim()\<close>.
\<close>

record upload_form =
  uploadFileInput :: "upload_file list"
  uploadFileKey :: string
  uploadTargetFolder :: string
  currentPath :: string
  uploadModeFolder :: bool
  enableProtection :: bool
  protectionPassword :: string

datatype fetch_outcome = FetchResolved int | FetchRejected

datatype event =
    XhrSend string string upload_file
  | ProgressUI progress_ui
  | SetPathProtection string string string
  | ConsoleWarn string

record upload_state =
  successCount :: nat
  failCount :: nat
  totalLoaded :: nat
  events :: "event list"

definition uploadStep ::
  "bool \<Rightarrow> string \<Rightarrow> string \<Rightarrow> nat \<Rightarrow> nat \<Rightarrow> transfer \<Rightarrow> nat \<Rightarrow> upload_file
     \<Rightarrow> upload_state \<Rightarrow> upload_state" where
  \<comment> \<open>one iteration of the \<open>for\<close> loop, for \<open>files[i]\<close>\<close>
  "uploadStep isFolderMode targetPath key nfiles grandTotal t i f s =
     (let relPath =
            (if isFolderMode \<and> webkitRelativePath f \<noteq> []
             then joinPath targetPath (normalizeSeparators (webkitRelativePath f))
             else joinPath targetPath (file_name f));
          fileStartLoaded = totalLoaded s;
          (calls, result) = uploadFileWithProgress t;
          shown = map (\<lambda>(loaded, total').
                    ProgressUI (updateProgressUI (i + 1) nfiles (file_name f) loaded total'
                                  (fileStartLoaded + loaded) grandTotal)) calls;
          s1 = s\<lparr>events := events s @ [XhrSend (''/upload/'' @ relPath) key f] @ shown\<rparr>;
          s2 = (case result of
                  Resolved r \<Rightarrow>
                    (if ok r then s1\<lparr>successCount := successCount s1 + 1\<rparr>
                     else s1\<lparr>failCount := failCount s1 + 1\<rparr>)
                | Rejected e \<Rightarrow> s1\<lparr>failCount := failCount s1 + 1\<rparr>)
      in s2\<lparr>totalLoaded := totalLoaded s2 + file_size f\<rparr>)"

fun uploadLoop ::
  "bool \<Rightarrow> string \<Rightarrow> string \<Rightarrow> nat \<Rightarrow> nat \<Rightarrow> (nat \<Rightarrow> transfer) \<Rightarrow> nat \<Rightarrow> upload_file list
     \<Rightarrow> upload_state \<Rightarrow> upload_state" where
  "uploadLoop isFolderMode targetPath key nfiles grandTotal net i [] s = s"
| "uploadLoop isFolderMode targetPath key nfiles grandTotal net i (f # rest) s =
     uploadLoop isFolderMode targetPath key nfiles grandTotal net (i + 1) rest
       (uploadStep isFolderMode targetPath key nfiles grandTotal (net i) i f s)"

definition targetPathOf :: "upload_form \<Rightarrow> string" where
  \<comment> \<open>\<^verbatim>\<open>(uploadTargetFolder?.value.trim() || this.config.currentPath).replace(/^\/+|\/+$/g, '')\<close>\<close>
  "targetPathOf form =
     stripSlashes (if uploadTargetFolder form \<noteq> [] then uploadTargetFolder form
                   else currentPath form)"

definition folderBasePathOf :: "upload_form \<Rightarrow> string option" where
  \<comment> \<open>\<open>None\<close> is \<open>null\<close>\<close>
  "folderBasePathOf form =
     (case uploadFileInput form of
        [] \<Rightarrow> None
      | f0 # _ \<Rightarrow>
          (if uploadModeFolder form \<and> webkitRelativePath f0 \<noteq> []
           then Some (joinPath (targetPathOf form)
                        (firstSegment (normalizeSeparators (webkitRelativePath f0))))
           else None))"

text \<open>
  \<open>performUpload\<close> is modelled in three parts, in the order of its text: the loop over
  the files with its totals (\<open>uploadAll\<close>), the protection request after the loop
  (\<open>setFolderProtection\<close>), and the function itself with its three early returns.
  The model ends after the protection request; what follows in the source only shows a
  message and closes or reloads the page.
\<close>

definition uploadAll :: "upload_form \<Rightarrow> (nat \<Rightarrow> transfer) \<Rightarrow> upload_state" where
  "uploadAll form net =
     (let files = uploadFileInput form;
          grandTotal = sum_list (map file_size files)
      in uploadLoop (uploadModeFolder form) (targetPathOf form) (uploadFileKey form)
           (length files) grandTotal net 0 files
           \<lparr>successCount = 0, failCount = 0, totalLoaded = 0, events = []\<rparr>)"

definition setFolderProtection :: "upload_form \<Rightarrow> nat \<Rightarrow> fetch_outcome \<Rightarrow> event list" where
  \<comment> \<open>\<^verbatim>\<open>if (protectFolder && successCount > 0 && folderBasePath) { try { await fetch(...) } catch ... }\<close>\<close>
  "setFolderProtection form successes protectionFetch =
     (let protectFolder = (uploadModeFolder form \<and> enableProtection form);
          protectionPwd = (if protectFolder then protectionPassword form else [])
      in case folderBasePathOf form of
           None \<Rightarrow> []
         | Some folderBasePath \<Rightarrow>
             (if protectFolder \<and> successes > 0 \<and> folderBasePath \<noteq> []
              then SetPathProtection folderBasePath protectionPwd (uploadFileKey form) #
                   (case protectionFetch of
                      FetchResolved _ \<Rightarrow> []
                    | FetchRejected \<Rightarrow> [ConsoleWarn ''Failed to set folder protection''])
              else []))"

definition performUpload ::
  "upload_form \<Rightarrow> (nat \<Rightarrow> transfer) \<Rightarrow> fetch_outcome \<Rightarrow> string + upload_state" where
  \<comment> \<open>\<open>Inl\<close>: the message of an early return; \<open>Inr\<close>: the state after the protection step\<close>
  "performUpload form net protectionFetch =
     (let files = uploadFileInput form;
          key = uploadFileKey form;
          isFolderMode = uploadModeFolder form
      in if files = [] then
           Inl (if isFolderMode then ''Select a folder.'' else ''Select at least one file.'')
         else if key = [] then Inl ''Password required.''
         else
           let protectFolder = (isFolderMode \<and> enableProtection form);
               protectionPwd = (if protectFolder then protectionPassword form else [])
           in if protectFolder \<and> protectionPwd = [] then Inl ''Protection password required.''
              else
                let grandTotal = sum_list (map file_size files);
                    s = uploadAll form net;
                    final = ProgressUI (updateProgressUI (length files) (length files) ''Complete''
                                          grandTotal grandTotal grandTotal grandTotal)
                in Inr (s\<lparr>events := events s @ [final] @
                                     setFolderProtection form (successCount s) protectionFetch\<rparr>))"

section \<open>Observations on a run\<close>

text \<open>
  The claims speak about what a run of \<open>performUpload\<close> sends and shows. These
  functions read that off the event list. \<open>status2xx\<close> is the success condition in the
  words of the specification: the request completed with a status from 200 to 299.
\<close>

fun status2xx :: "xhr_completion \<Rightarrow> bool" where
  "status2xx (Load st) = (200 \<le> st \<and> st \<le> 299)"
| "status2xx NetworkError = False"
| "status2xx Aborted = False"

fun xhrSent :: "event \<Rightarrow> (string \<times> string \<times> upload_file) list" where
  "xhrSent (XhrSend url key f) = [(url, key, f)]"
| "xhrSent _ = []"

fun shownPercent :: "event \<Rightarrow> int list" where
  "shownPercent (ProgressUI u) = [overallPercent u]"
| "shownPercent _ = []"

fun protectionCall :: "event \<Rightarrow> (string \<times> string \<times> string) list" where
  "protectionCall (SetPathProtection p pwd key) = [(p, pwd, key)]"
| "protectionCall _ = []"

definition uploadRequests :: "event list \<Rightarrow> (string \<times> string \<times> upload_file) list" where
  "uploadRequests evs = concat (map xhrSent evs)"

definition reportedPercents :: "event list \<Rightarrow> int list" where
  "reportedPercents evs = concat (map shownPercent evs)"

definition protectionCalls :: "event list \<Rightarrow> (string \<times> string \<times> string) list" where
  "protectionCalls evs = concat (map protectionCall evs)"

definition uploadUrl :: "bool \<Rightarrow> string \<Rightarrow> upload_file \<Rightarrow> string" where
  "uploadUrl isFolderMode targetPath f =
     ''/upload/'' @
     (if isFolderMode \<and> webkitRelativePath f \<noteq> []
      then joinPath targetPath (normalizeSeparators (webkitRelativePath f))
      else joinPath targetPath (file_name f))"

definition reportedLoads :: "transfer \<Rightarrow> nat list" where
  "reportedLoads t = map ev_loaded (filter lengthComputable (progressEvents t))"

text \<open>
  \<open>batchStarts\<close> says that none of the three early returns of \<open>performUpload\<close> is
  taken: files were chosen, the key is non-empty, and a protected folder upload comes with
  a password. \<open>grandTotalOf\<close> is the sum of the declared sizes.
\<close>

definition batchStarts :: "upload_form \<Rightarrow> bool" where
  "batchStarts form \<longleftrightarrow>
     uploadFileInput form \<noteq> [] \<and> uploadFileKey form \<noteq> [] \<and>
     \<not> (uploadModeFolder form \<and> enableProtection form \<and> protectionPassword form = [])"

definition grandTotalOf :: "upload_form \<Rightarrow> nat" where
  "grandTotalOf form = sum_list (map file_size (uploadFileInput form))"

text \<open>A folder upload of two files into \<open>docs\<close>: the first arrives, the second meets a network error.\<close>

definition example_files :: "upload_file list" where
  "example_files =
     [\<lparr>file_name = ''a.txt'', webkitRelativePath = ''photos/a.txt'', file_size = 3\<rparr>,
      \<lparr>file_name = ''b.txt'', webkitRelativePath = ''photos/sub/b.txt'', file_size = 4\<rparr>]"

definition example_form :: upload_form where
  "example_form =
     \<lparr>uploadFileInput = example_files, uploadFileKey = ''k'', uploadTargetFolder = ''/docs/'',
      currentPath = [], uploadModeFolder = True, enableProtection = True,
      protectionPassword = ''x''\<rparr>"

definition example_net :: "nat \<Rightarrow> transfer" where
  "example_net i =
     (if i = 0
      then \<lparr>progressEvents = [\<lparr>lengthComputable = True, ev_loaded = 1, ev_total = 3\<rparr>,
                               \<lparr>lengthComputable = True, ev_loaded = 3, ev_total = 3\<rparr>],
            completion = Load 200\<rparr>
      else \<lparr>progressEvents = [\<lparr>lengthComputable = True, ev_loaded = 2, ev_total = 4\<rparr>],
            completion = NetworkError\<rparr>)"

text \<open>The state in which \<open>performUpload\<close> leaves that batch when the protection request is rejected.\<close>

definition example_result :: upload_state where
  "example_result =
     \<lparr>successCount = 1, failCount = 1, totalLoaded = 7,
      events =
        [XhrSend ''/upload/docs/photos/a.txt'' ''k''
           \<lparr>file_name = ''a.txt'', webkitRelativePath = ''photos/a.txt'', file_size = 3\<rparr>,
         ProgressUI \<lparr>overallPercent = 14, progressBytes = (1, 7),
                     progressLabel = ''Uploading: a.txt'', progressFile = (1, 2)\<rparr>,
         ProgressUI \<lparr>overallPercent = 43, progressBytes = (3, 7),
                     progressLabel = ''Uploading: a.txt'', progressFile = (1, 2)\<rparr>,
         XhrSend ''/upload/docs/photos/sub/b.txt'' ''k''
           \<lparr>file_name = ''b.txt'', webkitRelativePath = ''photos/sub/b.txt'', file_size = 4\<rparr>,
         ProgressUI \<lparr>overallPercent = 71, progressBytes = (5, 7),
                     progressLabel = ''Uploading: b.txt'', progressFile = (2, 2)\<rparr>,
         ProgressUI \<lparr>overallPercent = 100, progressBytes = (7, 7),
                     progressLabel = ''Uploading: Complete'', progressFile = (2, 2)\<rparr>,
         SetPathProtection ''docs/photos'' ''x'' ''k'',
         ConsoleWarn ''Failed to set folder protection'']\<rparr>"

text \<open>
  The assumption of the progress claim on one transfer: the \<open>loaded\<close> values the
  browser reports for a file never decrease and never exceed the file's declared size.
\<close>

definition steadyProgress :: "upload_file \<Rightarrow> transfer \<Rightarrow> bool" where
  "steadyProgress f t \<longleftrightarrow>
     sorted (reportedLoads t) \<and> (\<forall>l\<in>set (reportedLoads t). l \<le> file_size f)"

text \<open>
  One file of 40 bytes sent from the root folder in file mode, with progress events at 22,
  23 and 24 bytes. At 23 bytes the doubles give \<open>0.575 * 100 = 57.49999999999999\<close>, so the
  page shows 57 percent, where the exact quotient would give 57.5 and 58 percent.
\<close>

definition rounding_file :: upload_file where
  "rounding_file = \<lparr>file_name = ''c.bin'', webkitRelativePath = [], file_size = 40\<rparr>"

definition rounding_form :: upload_form where
  "rounding_form =
     \<lparr>uploadFileInput = [rounding_file], uploadFileKey = ''k'', uploadTargetFolder = [],
      currentPath = [], uploadModeFolder = False, enableProtection = False,
      protectionPassword = []\<rparr>"

definition rounding_net :: "nat \<Rightarrow> transfer" where
  "rounding_net i =
     \<lparr>progressEvents = [\<lparr>lengthComputable = True, ev_loaded = 22, ev_total = 40\<rparr>,
                         \<lparr>lengthComputable = True, ev_loaded = 23, ev_total = 40\<rparr>,
                         \<lparr>lengthComputable = True, ev_loaded = 24, ev_total = 40\<rparr>],
      completion = Load 200\<rparr>"

definition rounding_result :: upload_state where
  "rounding_result =
     \<lparr>successCount = 1, failCount = 0, totalLoaded = 40,
      events =
        [XhrSend ''/upload/c.bin'' ''k'' rounding_file,
         ProgressUI \<lparr>overallPercent = 55, progressBytes = (22, 40),
                     progressLabel = ''Uploading: c.bin'', progressFile = (1, 1)\<rparr>,
         ProgressUI \<lparr>overallPercent = 57, progressBytes = (23, 40),
                     progressLabel = ''Uploading: c.bin'', progressFile = (1, 1)\<rparr>,
         ProgressUI \<lparr>overallPercent = 60, progressBytes = (24, 40),
                     progressLabel = ''Uploading: c.bin'', progressFile = (1, 1)\<rparr>,
         ProgressUI \<lparr>overallPercent = 100, progressBytes = (40, 40),
                     progressLabel = ''Uploading: Complete'', progressFile = (1, 1)\<rparr>]\<rparr>"

text \<open>A batch of one empty file, sent from the root folder in file mode; the server answers 500.\<close>

definition empty_file_form :: upload_form where
  "empty_file_form =
     \<lparr>uploadFileInput = [\<lparr>file_name = ''empty.txt'', webkitRelativePath = [], file_size = 0\<rparr>],
      uploadFileKey = ''k'', uploadTargetFolder = [], currentPath = [],
      uploadModeFolder = False, enableProtection = False, protectionPassword = []\<rparr>"

definition empty_file_net :: "nat \<Rightarrow> transfer" where
  "empty_file_net i =
     \<lparr>progressEvents = [\<lparr>lengthComputable = True, ev_loaded = 0, ev_total = 0\<rparr>],
      completion = Load 500\<rparr>"

definition empty_file_result :: upload_state where
  "empty_file_result =
     \<lparr>successCount = 0, failCount = 1, totalLoaded = 0,
      events =
        [XhrSend ''/upload/empty.txt'' ''k''
           \<lparr>file_name = ''empty.txt'', webkitRelativePath = [], file_size = 0\<rparr>,
         ProgressUI \<lparr>overallPercent = 0, progressBytes = (0, 0),
                     progressLabel = ''Uploading: empty.txt'', progressFile = (1, 1)\<rparr>,
         ProgressUI \<lparr>overallPercent = 0, progressBytes = (0, 0),
                     progressLabel = ''Uploading: Complete'', progressFile = (1, 1)\<rparr>]\<rparr>"

text \<open>
  The folder root of a batch in the words of the specification: the first segment of the
  first file's declared relative path, under the target folder.
\<close>

definition folderRootOf :: "upload_form \<Rightarrow> string" where
  "folderRootOf form =
     joinPath (targetPathOf form)
       (firstSegment (normalizeSeparators (webkitRelativePath (hd (uploadFileInput form)))))"

text \<open>
  A file picked in file mode, so without a relative path, and sent after the mode was
  switched to folder upload with protection: \<open>toggleUploadMode\<close> keeps the chosen files.
\<close>

definition loose_file_form :: upload_form where
  "loose_file_form =
     \<lparr>uploadFileInput = [\<lparr>file_name = ''a.txt'', webkitRelativePath = [], file_size = 1\<rparr>],
      uploadFileKey = ''k'', uploadTargetFolder = [], currentPath = [],
      uploadModeFolder = True, enableProtection = True, protectionPassword = ''x''\<rparr>"

text \<open>A network on which every request completes with status 200, without progress events.\<close>

definition plain_ok_net :: "nat \<Rightarrow> transfer" where
  "plain_ok_net i = \<lparr>progressEvents = [], completion = Load 200\<rparr>"

definition loose_file_result :: upload_state where
  "loose_file_result =
     \<lparr>successCount = 1, failCount = 0, totalLoaded = 1,
      events =
        [XhrSend ''/upload/a.txt'' ''k''
           \<lparr>file_name = ''a.txt'', webkitRelativePath = [], file_size = 1\<rparr>,
         ProgressUI \<lparr>overallPercent = 100, progressBytes = (1, 1),
                     progressLabel = ''Uploading: Complete'', progressFile = (1, 1)\<rparr>]\<rparr>"

text \<open>
  A folder \<open>photos\<close> holding one file whose name contains a backslash, uploaded into
  \<open>docs\<close> with protection.
\<close>

definition backslash_name :: string where
  "backslash_name = ''a'' @ [CHR 0x5C] @ ''b.txt''"

definition backslash_file :: upload_file where
  "backslash_file =
     \<lparr>file_name = backslash_name, webkitRelativePath = ''photos/'' @ backslash_name,
      file_size = 1\<rparr>"

definition backslash_form :: upload_form where
  "backslash_form =
     \<lparr>uploadFileInput = [backslash_file],
      uploadFileKey = ''k'', uploadTargetFolder = ''docs'', currentPath = [],
      uploadModeFolder = True, enableProtection = True, protectionPassword = ''x''\<rparr>"

definition backslash_result :: upload_state where
  "backslash_result =
     \<lparr>successCount = 1, failCount = 0, totalLoaded = 1,
      events =
        [XhrSend ''/upload/docs/photos/a/b.txt'' ''k'' backslash_file,
         ProgressUI \<lparr>overallPercent = 100, progressBytes = (1, 1),
                     progressLabel = ''Uploading: Complete'', progressFile = (1, 1)\<rparr>,
         SetPathProtection ''docs/photos'' ''x'' ''k'']\<rparr>"

section \<open>The server's protection registry\<close>

text \<open>
  The server is a Flask application (\<open>app/services/auth_service.py\<close> and its
  neighbours); the browser client modelled above only calls it. A path is the list of
  its segments, so that an ancestor is a prefix. The served root is the empty list; it is
  not one of the paths that carry an entry: the candidates for \<open>a/b/c\<close> are \<open>a\<close>,
  \<open>a/b\<close> and \<open>a/b/c\<close>.
\<close>

type_synonym path = "string list"

type_synonym protection_registry = "path \<rightharpoonup> string"

text \<open>
  Modelled from the spec: \<open>isProtected\<close> of the protection registry, whose code is on the
  server. The spec asks for "the key of the nearest ancestor (inclusive) with a
  ProtectionEntry, or none", and that the lookup check the closest ancestor first. The
  lookup walks from the path itself towards the root and stops at the first entry.
\<close>

function isProtected :: "protection_registry \<Rightarrow> path \<Rightarrow> string option" where
  "isProtected reg p =
     (if p = [] then None
      else case reg p of
             Some key \<Rightarrow> Some key
           | None \<Rightarrow> isProtected reg (butlast p))"
  by pat_completeness auto
termination
  by (relation "measure (\<lambda>(reg, p). length p)") auto

text \<open>The registry of the README's example, with a second entry below \<open>private\<close>.\<close>

definition example_registry :: protection_registry where
  "example_registry =
     [[''private''] \<mapsto> ''secret123'',
      [''docs'', ''confidential''] \<mapsto> ''another-key'',
      [''private'', ''inner''] \<mapsto> ''inner-key'']"

section \<open>Delete mode of the client: \<open>setupDeleteMode\<close> and \<open>performDelete\<close>\<close>

text \<open>
  The state that the handlers of \<open>setupDeleteMode\<close> read and write: the variable
  \<open>enteredDeleteKey\<close> of the closure (\<open>None\<close> is \<open>null\<close>), the \<open>delete-mode\<close> class of
  the body, the key dialog with its error text, the check boxes of the listing (value
  and checked flag, in document order), the \<open>disabled\<close> flag of the delete button, the
  open confirmation dialog with the items its \<open>onConfirm\<close> closure captured, and the
  requests sent so far. The page configuration tells the client only whether a delete
  key is configured, never the key; without it \<open>setupDeleteMode\<close> installs no handler.
\<close>

record delete_request =
  request_url :: string
  request_method :: string
  request_headers :: "(string \<times> string) list"
  items_to_delete :: "string list"

record delete_page =
  deleteKeyConfigured :: bool
  enteredDeleteKey :: "string option"
  deleteMode :: bool
  deleteKeyModalActive :: bool
  deleteModalError :: string
  fileListCheckboxes :: "(string \<times> bool) list"
  deleteSelectedDisabled :: bool
  confirmDialog :: "string list option"
  fetches :: "delete_request list"

definition performDelete :: "string list \<Rightarrow> string \<Rightarrow> delete_request" where
  \<comment> \<open>the request of \<open>performDelete\<close>; the reply only fills the result dialog\<close>
  "performDelete itemsToDelete deleteKey =
     \<lparr>request_url = ''/api/delete-items'', request_method = ''POST'',
      request_headers = [(''Content-Type'', ''application/json''), (''X-Delete-Key'', deleteKey)],
      items_to_delete = itemsToDelete\<rparr>"

definition checkAnyCheckboxSelected :: "delete_page \<Rightarrow> delete_page" where
  "checkAnyCheckboxSelected st =
     (let anyChecked = list_ex snd (fileListCheckboxes st)
      in st\<lparr>deleteSelectedDisabled := \<not> anyChecked\<rparr>)"

definition enterDeleteMode :: "string \<Rightarrow> delete_page \<Rightarrow> delete_page" where
  "enterDeleteMode validKey st =
     checkAnyCheckboxSelected
       (st\<lparr>enteredDeleteKey := Some validKey, deleteMode := True, deleteKeyModalActive := False\<rparr>)"

definition exitDeleteMode :: "delete_page \<Rightarrow> delete_page" where
  "exitDeleteMode st =
     st\<lparr>enteredDeleteKey := None, deleteMode := False,
        fileListCheckboxes := map (\<lambda>cb. (fst cb, False)) (fileListCheckboxes st)\<rparr>"

definition deleteModalSubmitClick :: "string \<Rightarrow> delete_page \<Rightarrow> delete_page" where
  \<comment> \<open>click on \<open>deleteModalSubmitBtn\<close>; \<open>keyAttempt\<close> is the value of the key field\<close>
  "deleteModalSubmitClick keyAttempt st =
     (if \<not> deleteKeyConfigured st then st
      else
        let st1 = st\<lparr>deleteModalError := []\<rparr>
        in if keyAttempt \<noteq> [] \<and> length keyAttempt > 0 then enterDeleteMode keyAttempt st1
           else st1\<lparr>deleteModalError := ''Key cannot be empty.''\<rparr>)"

definition checkboxChange :: "nat \<Rightarrow> delete_page \<Rightarrow> delete_page" where
  \<comment> \<open>the user toggles the \<open>i\<close>-th check box; its \<open>change\<close> handler runs\<close>
  "checkboxChange i st =
     (if i < length (fileListCheckboxes st)
      then
        let cb = fileListCheckboxes st ! i;
            st1 = st\<lparr>fileListCheckboxes := (fileListCheckboxes st)[i := (fst cb, \<not> snd cb)]\<rparr>
        in if deleteKeyConfigured st then checkAnyCheckboxSelected st1 else st1
      else st)"

definition deleteSelectedClick :: "delete_page \<Rightarrow> delete_page" where
  \<comment> \<open>click on \<open>deleteSelectedBtn\<close>; a disabled button receives no click\<close>
  "deleteSelectedClick st =
     (if \<not> deleteKeyConfigured st \<or> deleteSelectedDisabled st then st
      else
        let itemsToDelete = map fst (filter snd (fileListCheckboxes st))
        in if length itemsToDelete = 0 then st
           else case enteredDeleteKey st of
                  None \<Rightarrow> st
                | Some key \<Rightarrow>
                    if key = [] then st
                    else st\<lparr>confirmDialog := Some itemsToDelete\<rparr>)"

definition confirmDeleteConfirmClick :: "delete_page \<Rightarrow> delete_page" where
  \<comment> \<open>click on the confirm button of \<open>ConfirmDialog\<close>: \<open>onConfirm\<close> calls \<open>performDelete\<close>
      with the items it captured and the value \<open>enteredDeleteKey\<close> has at that moment;
      a \<open>null\<close> key goes into the header as the text \<open>null\<close>\<close>
  "confirmDeleteConfirmClick st =
     (case confirmDialog st of
        None \<Rightarrow> st
      | Some itemsToDelete \<Rightarrow>
          st\<lparr>confirmDialog := None,
             fetches := fetches st @
               [performDelete itemsToDelete
                  (case enteredDeleteKey st of Some key \<Rightarrow> key | None \<Rightarrow> ''null'')]\<rparr>)"

text \<open>A freshly loaded listing of two entries, on a server with a delete key.\<close>

definition example_page :: delete_page where
  "example_page =
     \<lparr>deleteKeyConfigured = True, enteredDeleteKey = None, deleteMode = False,
      deleteKeyModalActive = True, deleteModalError = [],
      fileListCheckboxes = [(''docs/old-file.txt'', False), (''docs/old-folder'', False)],
      deleteSelectedDisabled = True, confirmDialog = None, fetches = []\<rparr>"

section \<open>The server's delete endpoint\<close>

text \<open>
  Modelled from the spec: the storage behind the server, with a record of the removals
  performed on it, the errors a delete batch can report (\<open>AuthDenied\<close> for a key mismatch,
  \<open>NotFound\<close> for a missing path), and the result record of a batch. None of them is part
  of the client.
\<close>

datatype delete_error = AuthDenied | NotFound

record storage =
  entries :: "path list"
  removals :: "path list"

record delete_result =
  success_count :: nat
  fail_count :: nat
  errors :: "(path \<times> delete_error) list"

text \<open>
  Modelled from the spec: \<open>removeRecursive\<close> of the storage backend, which is not part of
  the client. It removes a path with everything below it, or reports that the path does
  not exist and leaves the storage alone.
\<close>

definition removeRecursive :: "path \<Rightarrow> storage \<Rightarrow> delete_error option \<times> storage" where
  "removeRecursive p st =
     (if p \<in> set (entries st)
      then (None, st\<lparr>entries := filter (\<lambda>q. \<not> prefix p q) (entries st),
                       removals := removals st @ [p]\<rparr>)
      else (Some NotFound, st))"

text \<open>
  Modelled from the spec: the loop of the delete orchestrator, whose code is on the
  server. It "attempts removal of each path independently; a failure on one path does not
  block attempting the rest", and collects the errors in input order.
\<close>

fun removeEach :: "path list \<Rightarrow> storage \<Rightarrow> delete_result \<Rightarrow> delete_result \<times> storage" where
  "removeEach [] st r = (r, st)"
| "removeEach (p # ps) st r =
     (case removeRecursive p st of
        (None, st') \<Rightarrow> removeEach ps st' (r\<lparr>success_count := success_count r + 1\<rparr>)
      | (Some e, st') \<Rightarrow>
          removeEach ps st' (r\<lparr>fail_count := fail_count r + 1, errors := errors r @ [(p, e)]\<rparr>))"

text \<open>
  Modelled from the spec: the delete orchestrator behind \<open>/api/delete-items\<close>, whose code
  is on the server. It "validates the key once (global delete key)"; "a mismatched key
  fails the whole batch before any filesystem mutation"; the failure reply has the same
  shape as the result, with the errors filled.
\<close>

definition deleteItems ::
  "string \<Rightarrow> string \<Rightarrow> path list \<Rightarrow> storage \<Rightarrow> delete_result \<times> storage" where
  "deleteItems configuredKey suppliedKey paths st =
     (if suppliedKey \<noteq> configuredKey
      then (\<lparr>success_count = 0, fail_count = length paths,
             errors = map (\<lambda>p. (p, AuthDenied)) paths\<rparr>, st)
      else removeEach paths st \<lparr>success_count = 0, fail_count = 0, errors = []\<rparr>)"

text \<open>A storage holding a folder \<open>docs\<close> with a file and a subfolder.\<close>

definition example_storage :: storage where
  "example_storage =
     \<lparr>entries = [[''docs''], [''docs'', ''old-file.txt''], [''docs'', ''old-folder''],
                 [''docs'', ''old-folder'', ''x.txt'']],
      removals = []\<rparr>"

section \<open>Facts about double rounding and the progress percentage\<close>

declare doublings.simps [simp del] halvings.simps [simp del]

lemma floor_numeral_quotient:
  "\<lfloor>(numeral a :: rat) / numeral b\<rfloor> = numeral a div numeral b"
  using floor_divide_of_int_eq [of "numeral a" "numeral b", where ?'a = rat] by simp

lemma rat_pow2_le: "(2::rat) ^ n \<le> of_int m \<longleftrightarrow> 2 ^ n \<le> m"
proof -
  have "(2::rat) ^ n = of_int (2 ^ n)" by simp
  then show ?thesis by (simp only: of_int_le_iff)
qed

lemma rat_pow2_less: "of_int m < (2::rat) ^ n \<longleftrightarrow> m < 2 ^ n"
proof -
  have "(2::rat) ^ n = of_int (2 ^ n)" by simp
  then show ?thesis by (simp only: of_int_less_iff)
qed

lemma rat_le_pow2: "of_int m \<le> (2::rat) ^ n \<longleftrightarrow> m \<le> 2 ^ n"
proof -
  have "(2::rat) ^ n = of_int (2 ^ n)" by simp
  then show ?thesis by (simp only: of_int_le_iff)
qed

lemma roundHalfEven_of_int: "roundHalfEven (of_int m) = m"
  by (simp add: roundHalfEven_def)

lemma roundHalfEven_mono: "s \<le> t \<Longrightarrow> roundHalfEven s \<le> roundHalfEven t"
proof -
  assume st: "s \<le> t"
  have fs: "of_int \<lfloor>s\<rfloor> \<le> s" "s < of_int \<lfloor>s\<rfloor> + 1" and ft: "of_int \<lfloor>t\<rfloor> \<le> t" "t < of_int \<lfloor>t\<rfloor> + 1"
    by linarith+
  have le: "\<lfloor>s\<rfloor> \<le> \<lfloor>t\<rfloor>"
    using st by (rule floor_mono)
  show ?thesis
  proof (cases "\<lfloor>s\<rfloor> = \<lfloor>t\<rfloor>")
    case True
    then show ?thesis
      using st by (auto simp: roundHalfEven_def Let_def)
  next
    case False
    then have "\<lfloor>s\<rfloor> + 1 \<le> \<lfloor>t\<rfloor>"
      using le by simp
    moreover have "roundHalfEven s \<le> \<lfloor>s\<rfloor> + 1"
      by (simp add: roundHalfEven_def Let_def)
    moreover have "\<lfloor>t\<rfloor> \<le> roundHalfEven t"
      by (simp add: roundHalfEven_def Let_def)
    ultimately show ?thesis
      by linarith
  qed
qed

lemma doublings_range:
  "0 < x \<Longrightarrow> x < 2 ^ 53 \<Longrightarrow> 2 ^ 52 \<le> x * 2 ^ doublings x \<and> x * 2 ^ doublings x < 2 ^ 53"
proof (induction x rule: doublings.induct)
  case (1 x)
  show ?case
  proof (cases "x < 2 ^ 52")
    case True
    with "1.prems" have "2 ^ 52 \<le> 2 * x * 2 ^ doublings (2 * x) \<and> 2 * x * 2 ^ doublings (2 * x) < 2 ^ 53"
      by (intro "1.IH") simp_all
    moreover have "doublings x = Suc (doublings (2 * x))"
      using True "1.prems" by (subst doublings.simps) simp
    ultimately show ?thesis
      by (simp add: mult_ac)
  next
    case False
    then have "doublings x = 0"
      by (subst doublings.simps) simp
    then show ?thesis
      using False "1.prems" by simp
  qed
qed

lemma halvings_range:
  "2 ^ 52 \<le> x \<Longrightarrow> 2 ^ 52 \<le> x / 2 ^ halvings x \<and> x / 2 ^ halvings x < 2 ^ 53"
proof (induction x rule: halvings.induct)
  case (1 x)
  show ?case
  proof (cases "2 ^ 53 \<le> x")
    case True
    then have "2 ^ 52 \<le> x / 2 / 2 ^ halvings (x / 2) \<and> x / 2 / 2 ^ halvings (x / 2) < 2 ^ 53"
      by (intro "1.IH") simp_all
    moreover have "halvings x = Suc (halvings (x / 2))"
      using True by (subst halvings.simps) simp
    ultimately show ?thesis
      by simp
  next
    case False
    then have "halvings x = 0"
      by (subst halvings.simps) simp
    then show ?thesis
      using False "1.prems" by simp
  qed
qed

lemma ulpExponent_range:
  assumes "0 < x"
  shows "2 ^ 52 \<le> x / 2 powi ulpExponent x" and "x / 2 powi ulpExponent x < 2 ^ 53"
proof -
  have "2 ^ 52 \<le> x / 2 powi ulpExponent x \<and> x / 2 powi ulpExponent x < 2 ^ 53"
  proof (cases "x < 2 ^ 52")
    case True
    then have "halvings x = 0"
      by (subst halvings.simps) simp
    then have "x / 2 powi ulpExponent x = x * 2 ^ doublings x"
      by (simp add: ulpExponent_def power_int_minus field_simps)
    then show ?thesis
      using doublings_range [of x] assms True by simp
  next
    case False
    then have "doublings x = 0"
      by (subst doublings.simps) simp
    then have "x / 2 powi ulpExponent x = x / 2 ^ halvings x"
      by (simp add: ulpExponent_def)
    then show ?thesis
      using halvings_range [of x] False by simp
  qed
  then show "2 ^ 52 \<le> x / 2 powi ulpExponent x" and "x / 2 powi ulpExponent x < 2 ^ 53"
    by simp_all
qed

lemma scaled_order:
  assumes "0 < (x::rat)" and "x \<le> y"
    and "2 ^ 52 \<le> x / 2 powi j" and "y / 2 powi k < 2 ^ 53"
  shows "j \<le> k"
proof (rule ccontr)
  assume "\<not> j \<le> k"
  then have "k + 1 \<le> j" by simp
  then have "(2::rat) powi (k + 1) \<le> 2 powi j"
    by (intro power_int_increasing) simp_all
  then have "2 ^ 53 * (2::rat) powi k \<le> 2 ^ 52 * 2 powi j"
    by (simp add: power_int_add)
  also have "\<dots> \<le> x"
    using assms(3) by (simp add: pos_le_divide_eq)
  also have "\<dots> \<le> y" by (rule assms(2))
  also have "\<dots> < 2 ^ 53 * 2 powi k"
    using assms(4) by (simp add: pos_divide_less_eq)
  finally show False by simp
qed

lemma ulpExponent_unique:
  assumes "0 < x" and "2 ^ 52 \<le> x / 2 powi k" and "x / 2 powi k < 2 ^ 53"
  shows "ulpExponent x = k"
  using scaled_order [OF assms(1) order_refl assms(2) ulpExponent_range(2) [OF assms(1)]]
    scaled_order [OF assms(1) order_refl ulpExponent_range(1) [OF assms(1)] assms(3)]
  by simp

lemma toDouble_at:
  assumes "0 < x" and "2 ^ 52 \<le> x / 2 powi k" and "x / 2 powi k < 2 ^ 53"
  shows "toDouble x = of_int (roundHalfEven (x / 2 powi k)) * 2 powi k"
  using assms(1) by (simp add: toDouble_def ulpExponent_unique [OF assms])

lemma toDouble_exact:
  assumes "2 ^ 52 \<le> m" and "m < 2 ^ 53"
  shows "toDouble (of_int m * 2 powi k) = of_int m * 2 powi k"
proof -
  have pos: "0 < of_int m * (2::rat) powi k"
    using assms(1) by (intro mult_pos_pos) simp_all
  have scaled: "of_int m * (2::rat) powi k / 2 powi k = of_int m"
    by simp
  have "(2::rat) ^ 52 \<le> of_int m" "of_int m < (2::rat) ^ 53"
    using assms by (simp_all only: rat_pow2_le rat_pow2_less)
  then show ?thesis
    using toDouble_at [OF pos, of k] by (simp add: scaled roundHalfEven_of_int)
qed

lemma toDouble_nonneg: "0 \<le> x \<Longrightarrow> 0 \<le> toDouble x"
proof (cases "x = 0")
  case True
  then show ?thesis by (simp add: toDouble_def)
next
  case False
  assume "0 \<le> x"
  with False have x: "0 < x" by simp
  have "(0::int) \<le> roundHalfEven (2 ^ 52)"
    using roundHalfEven_of_int [of "2 ^ 52"] by simp
  also have "\<dots> \<le> roundHalfEven (x / 2 powi ulpExponent x)"
    using ulpExponent_range(1) [OF x] by (rule roundHalfEven_mono)
  finally show ?thesis
    using x by (simp add: toDouble_def)
qed

lemma toDouble_mono:
  assumes "0 \<le> x" and "x \<le> y"
  shows "toDouble x \<le> toDouble y"
proof (cases "x = 0")
  case True
  then show ?thesis
    using toDouble_nonneg [of y] assms by (simp add: toDouble_def)
next
  case False
  with assms have x: "0 < x" and y: "0 < y" by simp_all
  let ?j = "ulpExponent x" and ?k = "ulpExponent y"
  have jk: "?j \<le> ?k"
    using scaled_order [OF x assms(2) ulpExponent_range(1) [OF x] ulpExponent_range(2) [OF y]] .
  have fx: "toDouble x = of_int (roundHalfEven (x / 2 powi ?j)) * 2 powi ?j"
    and fy: "toDouble y = of_int (roundHalfEven (y / 2 powi ?k)) * 2 powi ?k"
    using x y by (simp_all add: toDouble_def)
  show ?thesis
  proof (cases "?j = ?k")
    case True
    have "x / 2 powi ?k \<le> y / 2 powi ?k"
      using assms(2) by (simp add: divide_right_mono)
    then have "roundHalfEven (x / 2 powi ?k) \<le> roundHalfEven (y / 2 powi ?k)"
      by (rule roundHalfEven_mono)
    then show ?thesis
      using True by (simp add: fx fy mult_right_mono)
  next
    case False
    with jk have "?j + 1 \<le> ?k" by simp
    then have step: "(2::rat) powi (?j + 1) \<le> 2 powi ?k"
      by (intro power_int_increasing) simp_all
    have "roundHalfEven (x / 2 powi ?j) \<le> roundHalfEven (of_int (2 ^ 53))"
      using ulpExponent_range(2) [OF x] by (intro roundHalfEven_mono) simp
    then have "roundHalfEven (x / 2 powi ?j) \<le> 2 ^ 53"
      by (simp only: roundHalfEven_of_int)
    then have "rat_of_int (roundHalfEven (x / 2 powi ?j)) \<le> 2 ^ 53"
      by (simp only: rat_le_pow2)
    then have "toDouble x \<le> 2 ^ 53 * 2 powi ?j"
      by (simp add: fx mult_right_mono)
    also have "\<dots> = 2 ^ 52 * 2 powi (?j + 1)"
      by (simp add: power_int_add)
    also have "\<dots> \<le> 2 ^ 52 * 2 powi ?k"
      using step by simp
    also have "\<dots> \<le> toDouble y"
    proof -
      have "roundHalfEven (of_int (2 ^ 52)) \<le> roundHalfEven (y / 2 powi ?k)"
        using ulpExponent_range(1) [OF y] by (intro roundHalfEven_mono) simp
      then have "2 ^ 52 \<le> roundHalfEven (y / 2 powi ?k)"
        by (simp only: roundHalfEven_of_int)
      then have "2 ^ 52 \<le> rat_of_int (roundHalfEven (y / 2 powi ?k))"
        by (simp only: rat_pow2_le)
      then show ?thesis
        by (simp add: fy mult_right_mono)
    qed
    finally show ?thesis .
  qed
qed

lemma toDouble_1: "toDouble 1 = 1"
  using toDouble_exact [of "2 ^ 52" "- 52"] by simp

lemma toDouble_100: "toDouble 100 = 100"
  using toDouble_exact [of "100 * 2 ^ 46" "- 46"] by simp

lemma overallPercentOf_zero_total: "overallPercentOf a 0 = 0"
  by (simp add: overallPercentOf_def)

lemma overallPercentOf_mono: "a \<le> b \<Longrightarrow> overallPercentOf a g \<le> overallPercentOf b g"
proof (cases "g = 0")
  case True
  then show ?thesis by (simp add: overallPercentOf_def)
next
  case False
  assume ab: "a \<le> b"
  have "toDouble (rat_of_nat a / rat_of_nat g) \<le> toDouble (rat_of_nat b / rat_of_nat g)"
    using ab by (intro toDouble_mono divide_right_mono) simp_all
  moreover have "0 \<le> toDouble (rat_of_nat a / rat_of_nat g)"
    by (intro toDouble_nonneg) simp
  ultimately have "toDouble (toDouble (rat_of_nat a / rat_of_nat g) * 100)
      \<le> toDouble (toDouble (rat_of_nat b / rat_of_nat g) * 100)"
    by (intro toDouble_mono) simp_all
  then show ?thesis
    using False by (simp add: overallPercentOf_def Math_round_def floor_mono)
qed

lemma overallPercentOf_full: "0 < g \<Longrightarrow> overallPercentOf g g = 100"
  by (simp add: overallPercentOf_def toDouble_1 toDouble_100 Math_round_def
      floor_numeral_quotient)

lemma overallPercentOf_at:
  assumes "0 < g" and "0 < a"
    and "2 ^ 52 \<le> rat_of_nat a / rat_of_nat g / 2 powi j"
    and "rat_of_nat a / rat_of_nat g / 2 powi j < 2 ^ 53"
    and "d = of_int (roundHalfEven (rat_of_nat a / rat_of_nat g / 2 powi j)) * 2 powi j"
    and "2 ^ 52 \<le> d * 100 / 2 powi k" and "d * 100 / 2 powi k < 2 ^ 53"
  shows "overallPercentOf a g = Math_round (of_int (roundHalfEven (d * 100 / 2 powi k)) * 2 powi k)"
proof -
  have q: "0 < rat_of_nat a / rat_of_nat g"
    using assms(1,2) by simp
  have d: "toDouble (rat_of_nat a / rat_of_nat g) = d"
    using toDouble_at [OF q assms(3,4)] assms(5) by simp
  have "0 < d * 100 / 2 powi k"
    using assms(6) by (rule less_le_trans [rotated]) simp
  moreover have "(0::rat) < 2 powi k"
    by simp
  ultimately have "0 < d * 100"
    by (simp add: zero_less_divide_iff)
  from toDouble_at [OF this assms(6,7)] show ?thesis
    using assms(1) by (simp add: overallPercentOf_def d)
qed

lemma percent_1_7: "overallPercentOf 1 7 = 14"
  by (subst overallPercentOf_at [where j = "- 55" and k = "- 49", OF _ _ _ _ refl])
     (simp_all add: roundHalfEven_def Math_round_def floor_numeral_quotient Let_def)

lemma percent_3_7: "overallPercentOf 3 7 = 43"
  by (subst overallPercentOf_at [where j = "- 54" and k = "- 47", OF _ _ _ _ refl])
     (simp_all add: roundHalfEven_def Math_round_def floor_numeral_quotient Let_def)

lemma percent_5_7: "overallPercentOf 5 7 = 71"
  by (subst overallPercentOf_at [where j = "- 53" and k = "- 46", OF _ _ _ _ refl])
     (simp_all add: roundHalfEven_def Math_round_def floor_numeral_quotient Let_def)

lemma percent_22_40: "overallPercentOf 22 40 = 55"
  by (subst overallPercentOf_at [where j = "- 53" and k = "- 47", OF _ _ _ _ refl])
     (simp_all add: roundHalfEven_def Math_round_def floor_numeral_quotient Let_def)

lemma percent_23_40: "overallPercentOf 23 40 = 57"
  by (subst overallPercentOf_at [where j = "- 53" and k = "- 47", OF _ _ _ _ refl])
     (simp_all add: roundHalfEven_def Math_round_def floor_numeral_quotient Let_def)

lemma percent_24_40: "overallPercentOf 24 40 = 60"
  by (subst overallPercentOf_at [where j = "- 53" and k = "- 47", OF _ _ _ _ refl])
     (simp_all add: roundHalfEven_def Math_round_def floor_numeral_quotient Let_def)

lemma percent_29_200: "overallPercentOf 29 200 = 14"
  by (subst overallPercentOf_at [where j = "- 55" and k = "- 49", OF _ _ _ _ refl])
     (simp_all add: roundHalfEven_def Math_round_def floor_numeral_quotient Let_def)

lemma percent_Suc0_7: "overallPercentOf (Suc 0) 7 = 14"
  using percent_1_7 by simp

lemmas percent_values =
  percent_1_7 percent_Suc0_7 percent_3_7 percent_5_7 percent_22_40 percent_23_40 percent_24_40

lemma overallPercent_update [simp]:
  "overallPercent (updateProgressUI c n nm l t a g) = overallPercentOf a g"
  by (simp add: updateProgressUI_def)

section \<open>Facts about the upload loop\<close>

lemma observers_Nil [simp]:
  "uploadRequests [] = []" "reportedPercents [] = []" "protectionCalls [] = []"
  by (simp_all add: uploadRequests_def reportedPercents_def protectionCalls_def)

lemma observers_append [simp]:
  "uploadRequests (xs @ ys) = uploadRequests xs @ uploadRequests ys"
  "reportedPercents (xs @ ys) = reportedPercents xs @ reportedPercents ys"
  "protectionCalls (xs @ ys) = protectionCalls xs @ protectionCalls ys"
  by (simp_all add: uploadRequests_def reportedPercents_def protectionCalls_def)

lemma observers_ProgressUI [simp]:
  "uploadRequests (ProgressUI u # xs) = uploadRequests xs"
  "reportedPercents (ProgressUI u # xs) = overallPercent u # reportedPercents xs"
  "protectionCalls (ProgressUI u # xs) = protectionCalls xs"
  by (simp_all add: uploadRequests_def reportedPercents_def protectionCalls_def)

lemma uploadStep_successCount:
  "successCount (uploadStep fm tp key n g t i f s) =
     successCount s + (if status2xx (completion t) then 1 else 0)"
  by (cases "completion t") (auto simp: uploadStep_def uploadFileWithProgress_def Let_def)

lemma uploadStep_failCount:
  "failCount (uploadStep fm tp key n g t i f s) =
     failCount s + (if status2xx (completion t) then 0 else 1)"
  by (cases "completion t") (auto simp: uploadStep_def uploadFileWithProgress_def Let_def)

lemma uploadStep_totalLoaded:
  "totalLoaded (uploadStep fm tp key n g t i f s) = totalLoaded s + file_size f"
  by (cases "completion t") (auto simp: uploadStep_def uploadFileWithProgress_def Let_def)

lemma uploadStep_events:
  "events (uploadStep fm tp key n g t i f s) =
     events s @ XhrSend (uploadUrl fm tp f) key f #
       map (\<lambda>e. ProgressUI (updateProgressUI (i + 1) n (file_name f) (ev_loaded e) (ev_total e)
                                (totalLoaded s + ev_loaded e) g))
         (filter lengthComputable (progressEvents t))"
  by (cases "completion t")
     (auto simp: uploadStep_def uploadFileWithProgress_def uploadUrl_def Let_def comp_def)

lemma uploadStep_requests:
  "uploadRequests (events (uploadStep fm tp key n g t i f s)) =
     uploadRequests (events s) @ [(uploadUrl fm tp f, key, f)]"
  by (simp add: uploadStep_events uploadRequests_def comp_def)

lemma uploadStep_percents:
  "reportedPercents (events (uploadStep fm tp key n g t i f s)) =
     reportedPercents (events s) @ map (\<lambda>l. overallPercentOf (totalLoaded s + l) g) (reportedLoads t)"
  by (simp add: uploadStep_events reportedPercents_def reportedLoads_def comp_def)

lemma uploadStep_protectionCalls:
  "protectionCalls (events (uploadStep fm tp key n g t i f s)) = protectionCalls (events s)"
  by (simp add: uploadStep_events protectionCalls_def comp_def)

lemma upt_shift_Cons: "[i..<Suc (i + n)] = i # [Suc i..<Suc (i + n)]"
  by (simp add: upt_conv_Cons del: upt_Suc)

lemma uploadLoop_successCount:
  "successCount (uploadLoop fm tp key n g net i fs s) =
     successCount s + length (filter (\<lambda>j. status2xx (completion (net j))) [i..<i + length fs])"
  by (induction fs arbitrary: i s) (simp_all add: uploadStep_successCount upt_shift_Cons del: upt_Suc)

lemma uploadLoop_failCount:
  "failCount (uploadLoop fm tp key n g net i fs s) =
     failCount s + length (filter (\<lambda>j. \<not> status2xx (completion (net j))) [i..<i + length fs])"
  by (induction fs arbitrary: i s) (simp_all add: uploadStep_failCount upt_shift_Cons del: upt_Suc)

lemma uploadLoop_totalLoaded:
  "totalLoaded (uploadLoop fm tp key n g net i fs s) = totalLoaded s + sum_list (map file_size fs)"
  by (induction fs arbitrary: i s) (auto simp: uploadStep_totalLoaded)

lemma uploadLoop_requests:
  "uploadRequests (events (uploadLoop fm tp key n g net i fs s)) =
     uploadRequests (events s) @ map (\<lambda>f. (uploadUrl fm tp f, key, f)) fs"
  by (induction fs arbitrary: i s) (auto simp: uploadStep_requests)

lemma uploadLoop_protectionCalls:
  "protectionCalls (events (uploadLoop fm tp key n g net i fs s)) = protectionCalls (events s)"
  by (induction fs arbitrary: i s) (auto simp: uploadStep_protectionCalls)

section \<open>Facts about \<open>performUpload\<close>\<close>

lemma performUpload_starts:
  "batchStarts form \<Longrightarrow> \<exists>r. performUpload form net fo = Inr r"
  by (auto simp: performUpload_def batchStarts_def Let_def)

lemma performUpload_Inr:
  assumes "performUpload form net fo = Inr r"
  shows "batchStarts form"
    and "successCount r = successCount (uploadAll form net)"
    and "failCount r = failCount (uploadAll form net)"
    and "totalLoaded r = totalLoaded (uploadAll form net)"
    and "events r = events (uploadAll form net) @
           ProgressUI (updateProgressUI (length (uploadFileInput form)) (length (uploadFileInput form))
                         ''Complete'' (grandTotalOf form) (grandTotalOf form) (grandTotalOf form)
                         (grandTotalOf form)) #
           setFolderProtection form (successCount (uploadAll form net)) fo"
  using assms
  by (auto simp: performUpload_def batchStarts_def grandTotalOf_def Let_def split: if_splits)

lemma setFolderProtection_requests [simp]:
  "uploadRequests (setFolderProtection form n fo) = []"
  by (auto simp: setFolderProtection_def uploadRequests_def Let_def
      split: option.splits fetch_outcome.splits)

lemma setFolderProtection_percents [simp]:
  "reportedPercents (setFolderProtection form n fo) = []"
  by (auto simp: setFolderProtection_def reportedPercents_def Let_def
      split: option.splits fetch_outcome.splits)

lemma uploadAll_successCount:
  "successCount (uploadAll form net) =
     length (filter (\<lambda>i. status2xx (completion (net i))) [0..<length (uploadFileInput form)])"
  using uploadLoop_successCount [where i = 0]
  by (simp add: uploadAll_def Let_def)

lemma uploadAll_failCount:
  "failCount (uploadAll form net) =
     length (filter (\<lambda>i. \<not> status2xx (completion (net i))) [0..<length (uploadFileInput form)])"
  using uploadLoop_failCount [where i = 0]
  by (simp add: uploadAll_def Let_def)

lemma uploadAll_totalLoaded:
  "totalLoaded (uploadAll form net) = grandTotalOf form"
  by (simp add: uploadAll_def Let_def uploadLoop_totalLoaded grandTotalOf_def)

lemma uploadAll_requests:
  "uploadRequests (events (uploadAll form net)) =
     map (\<lambda>f. (uploadUrl (uploadModeFolder form) (targetPathOf form) f, uploadFileKey form, f))
       (uploadFileInput form)"
  by (simp add: uploadAll_def Let_def uploadLoop_requests)

lemma uploadAll_protectionCalls:
  "protectionCalls (events (uploadAll form net)) = []"
  by (simp add: uploadAll_def Let_def uploadLoop_protectionCalls)

lemma performUpload_requests:
  assumes "performUpload form net fo = Inr r"
  shows "uploadRequests (events r) =
     map (\<lambda>f. (uploadUrl (uploadModeFolder form) (targetPathOf form) f, uploadFileKey form, f))
       (uploadFileInput form)"
proof -
  have "uploadRequests (events r) = uploadRequests (events (uploadAll form net))"
    by (simp add: performUpload_Inr(5) [OF assms])
  then show ?thesis
    by (simp add: uploadAll_requests)
qed

lemma filter_split_length:
  "length (filter P xs) + length (filter (\<lambda>x. \<not> P x) xs) = length xs"
  by (induction xs) auto

section \<open>Evaluating the example batch\<close>

lemmas example_defs = example_form_def example_files_def example_net_def

lemmas model_defs = performUpload_def uploadAll_def uploadStep_def uploadFileWithProgress_def
  updateProgressUI_def setFolderProtection_def folderBasePathOf_def targetPathOf_def
  stripSlashes_def joinPath_def firstSegment_def normalizeSeparators_def Let_def

lemma example_run:
  "performUpload example_form example_net FetchRejected = Inr example_result"
  by (simp add: example_result_def example_defs model_defs percent_values overallPercentOf_full)

lemma example_starts: "batchStarts example_form"
  by (simp add: batchStarts_def example_defs)

lemma example_length:
  "length (uploadFileInput example_form) = 2" "uploadFileInput example_form = example_files"
  "length example_files = 2"
  by (simp_all add: example_defs)

section \<open>The claims about the upload batch\<close>

text \<open>
  C2. Once a batch starts, \<open>performUpload\<close> runs to its end, and at the end the number of
  successes plus the number of failures is the number of files in the batch; the requests
  sent are one per file of the input list, in the order of the list.
\<close>

theorem upload_counts_add_up:
  assumes "batchStarts form"
  shows "\<exists>r. performUpload form net fo = Inr r \<and>
           successCount r + failCount r = length (uploadFileInput form) \<and>
           map (\<lambda>(url, key, f). f) (uploadRequests (events r)) = uploadFileInput form"
proof -
  from assms obtain r where r: "performUpload form net fo = Inr r"
    using performUpload_starts by blast
  have "successCount r + failCount r = length (uploadFileInput form)"
    using filter_split_length [of "\<lambda>i. status2xx (completion (net i))"
        "[0..<length (uploadFileInput form)]"]
    by (simp add: performUpload_Inr(2,3) [OF r] uploadAll_successCount uploadAll_failCount)
  moreover have "map (\<lambda>(url, key, f). f) (uploadRequests (events r)) = uploadFileInput form"
    by (simp add: performUpload_requests [OF r] comp_def)
  ultimately show ?thesis
    using r by blast
qed

theorem upload_counts_add_up_witness:
  "batchStarts example_form \<and>
   (\<exists>r. performUpload example_form example_net FetchRejected = Inr r \<and>
        successCount r + failCount r = 2 \<and>
        map (\<lambda>(url, key, f). f) (uploadRequests (events r)) = example_files)"
  using upload_counts_add_up [OF example_starts, of example_net FetchRejected] example_starts
  by (simp add: example_length)

text \<open>
  C4. A transfer counts as a success exactly when its request completed with a status
  from 200 to 299; any other status, a network error and an abort count as failures.
  Whatever the outcomes are, one request is sent for every file of the batch, in order:
  a failed transfer does not end the loop.
\<close>

theorem upload_classification:
  assumes "performUpload form net fo = Inr r"
  shows "((\<exists>rsp. snd (uploadFileWithProgress t) = Resolved rsp \<and> ok rsp)
            \<longleftrightarrow> status2xx (completion t)) \<and>
         successCount r =
           length (filter (\<lambda>i. status2xx (completion (net i)))
                     [0..<length (uploadFileInput form)]) \<and>
         failCount r =
           length (filter (\<lambda>i. \<not> status2xx (completion (net i)))
                     [0..<length (uploadFileInput form)]) \<and>
         map (\<lambda>(url, key, f). f) (uploadRequests (events r)) = uploadFileInput form"
proof -
  have "(\<exists>rsp. snd (uploadFileWithProgress t) = Resolved rsp \<and> ok rsp)
          \<longleftrightarrow> status2xx (completion t)"
    by (cases "completion t") (auto simp: uploadFileWithProgress_def)
  then show ?thesis
    by (simp add: performUpload_Inr(2,3) [OF assms] uploadAll_successCount uploadAll_failCount
        performUpload_requests [OF assms] comp_def)
qed

theorem upload_classification_witness:
  "performUpload example_form example_net FetchRejected = Inr example_result \<and>
   status2xx (completion (example_net 0)) \<and> \<not> status2xx (completion (example_net 1)) \<and>
   successCount example_result = 1 \<and> failCount example_result = 1 \<and>
   map (\<lambda>(url, key, f). f) (uploadRequests (events example_result)) = example_files"
  using upload_classification [OF example_run, of "example_net 0"] example_run
  by (simp add: example_length example_net_def upt_conv_Cons)

text \<open>
  C10. The percentage is guarded against a grand total of zero: \<open>updateProgressUI\<close> then
  shows 0 percent, whatever the byte counts are, and the quotient is not formed.
\<close>

theorem zero_grand_total_shows_zero:
  "overallPercent (updateProgressUI currentFile totalFiles fileName loaded total' a 0) = 0"
  by (simp add: overallPercentOf_zero_total)

section \<open>Progress over a whole batch\<close>

lemma uploadStep_percents_sorted:
  assumes "steadyProgress f t"
    and "sorted (reportedPercents (events s))"
    and "\<forall>p\<in>set (reportedPercents (events s)). p \<le> overallPercentOf (totalLoaded s) g"
  shows "sorted (reportedPercents (events (uploadStep fm tp key n g t i f s)))"
    and "\<forall>p\<in>set (reportedPercents (events (uploadStep fm tp key n g t i f s))).
           p \<le> overallPercentOf (totalLoaded s + file_size f) g"
proof -
  let ?new = "map (\<lambda>l. overallPercentOf (totalLoaded s + l) g) (reportedLoads t)"
  have loads: "sorted (reportedLoads t)" "\<forall>l\<in>set (reportedLoads t). l \<le> file_size f"
    using assms(1) by (simp_all add: steadyProgress_def)
  have "sorted ?new"
    using loads(1) by (simp add: sorted_map sorted_wrt_mono_rel [of _ "(\<le>)"] overallPercentOf_mono)
  moreover have "\<forall>x\<in>set (reportedPercents (events s)). \<forall>y\<in>set ?new. x \<le> y"
  proof (intro ballI)
    fix x y
    assume x: "x \<in> set (reportedPercents (events s))" and y: "y \<in> set ?new"
    from y obtain l where "y = overallPercentOf (totalLoaded s + l) g"
      by auto
    moreover have "overallPercentOf (totalLoaded s) g \<le> overallPercentOf (totalLoaded s + l) g"
      by (rule overallPercentOf_mono) simp
    ultimately show "x \<le> y"
      using assms(3) x by force
  qed
  ultimately show "sorted (reportedPercents (events (uploadStep fm tp key n g t i f s)))"
    using assms(2) by (simp add: uploadStep_percents sorted_append)
  have "\<forall>y\<in>set ?new. y \<le> overallPercentOf (totalLoaded s + file_size f) g"
    using loads(2) by (auto intro: overallPercentOf_mono)
  moreover have "\<forall>x\<in>set (reportedPercents (events s)).
                   x \<le> overallPercentOf (totalLoaded s + file_size f) g"
  proof
    fix x
    assume "x \<in> set (reportedPercents (events s))"
    then have "x \<le> overallPercentOf (totalLoaded s) g"
      using assms(3) by blast
    also have "\<dots> \<le> overallPercentOf (totalLoaded s + file_size f) g"
      by (rule overallPercentOf_mono) simp
    finally show "x \<le> overallPercentOf (totalLoaded s + file_size f) g" .
  qed
  ultimately show "\<forall>p\<in>set (reportedPercents (events (uploadStep fm tp key n g t i f s))).
           p \<le> overallPercentOf (totalLoaded s + file_size f) g"
    by (auto simp: uploadStep_percents)
qed

lemma uploadLoop_percents_sorted:
  assumes "\<forall>j<length fs. steadyProgress (fs ! j) (net (i + j))"
    and "sorted (reportedPercents (events s))"
    and "\<forall>p\<in>set (reportedPercents (events s)). p \<le> overallPercentOf (totalLoaded s) g"
  shows "sorted (reportedPercents (events (uploadLoop fm tp key n g net i fs s))) \<and>
         (\<forall>p\<in>set (reportedPercents (events (uploadLoop fm tp key n g net i fs s))).
            p \<le> overallPercentOf (totalLoaded s + sum_list (map file_size fs)) g)"
  using assms
proof (induction fs arbitrary: i s)
  case Nil
  then show ?case by simp
next
  case (Cons f fs)
  let ?s' = "uploadStep fm tp key n g (net i) i f s"
  have first: "steadyProgress f (net i)"
    using Cons.prems(1) by force
  have rest: "\<forall>j<length fs. steadyProgress (fs ! j) (net (Suc i + j))"
    using Cons.prems(1) by force
  note step = uploadStep_percents_sorted [OF first Cons.prems(2) Cons.prems(3)]
  have "\<forall>p\<in>set (reportedPercents (events ?s')). p \<le> overallPercentOf (totalLoaded ?s') g"
    using step(2) by (simp add: uploadStep_totalLoaded)
  from Cons.IH [OF rest step(1) this]
  show ?case
    by (simp add: uploadStep_totalLoaded add.assoc)
qed

lemma uploadAll_percents_sorted:
  assumes "\<forall>i<length (uploadFileInput form). steadyProgress (uploadFileInput form ! i) (net i)"
  shows "sorted (reportedPercents (events (uploadAll form net)))"
    and "\<forall>p\<in>set (reportedPercents (events (uploadAll form net))).
           p \<le> overallPercentOf (grandTotalOf form) (grandTotalOf form)"
  using uploadLoop_percents_sorted [where i = 0 and fs = "uploadFileInput form" and net = net
      and s = "\<lparr>successCount = 0, failCount = 0, totalLoaded = 0, events = []\<rparr>"
      and g = "grandTotalOf form"] assms
  by (simp_all add: uploadAll_def Let_def grandTotalOf_def)

lemma performUpload_percents:
  assumes "performUpload form net fo = Inr r"
  shows "reportedPercents (events r) =
           reportedPercents (events (uploadAll form net)) @
           [overallPercentOf (grandTotalOf form) (grandTotalOf form)]"
  by (simp add: performUpload_Inr(5) [OF assms])

lemma rounding_run:
  "performUpload rounding_form rounding_net (FetchResolved 200) = Inr rounding_result"
  by (simp add: rounding_form_def rounding_file_def rounding_net_def rounding_result_def
      model_defs percent_values overallPercentOf_full)

text \<open>
  C3. If, for every file of the batch, the \<open>loaded\<close> values reported during its
  transfer never decrease and stay within the file's declared size, then the percentages
  shown during the whole batch, the final update included, never decrease. The
  percentages are those of the double-precision computation.
\<close>

theorem progress_never_decreases:
  assumes "performUpload form net fo = Inr r"
    and "\<forall>i<length (uploadFileInput form). steadyProgress (uploadFileInput form ! i) (net i)"
  shows "sorted (reportedPercents (events r))"
  using uploadAll_percents_sorted [OF assms(2)]
  by (simp add: performUpload_percents [OF assms(1)] sorted_append)

theorem progress_never_decreases_witness:
  "performUpload rounding_form rounding_net (FetchResolved 200) = Inr rounding_result \<and>
   steadyProgress (uploadFileInput rounding_form ! 0) (rounding_net 0) \<and>
   reportedPercents (events rounding_result) = [55, 57, 60, 100] \<and>
   sorted (reportedPercents (events rounding_result)) \<and>
   performUpload example_form example_net FetchRejected = Inr example_result \<and>
   steadyProgress (example_files ! 0) (example_net 0) \<and>
   steadyProgress (example_files ! 1) (example_net 1) \<and>
   reportedPercents (events example_result) = [14, 43, 71, 100] \<and>
   sorted (reportedPercents (events example_result))"
proof -
  have one: "steadyProgress (uploadFileInput rounding_form ! 0) (rounding_net 0)"
    by (simp add: steadyProgress_def reportedLoads_def rounding_form_def rounding_file_def
        rounding_net_def)
  then have "\<forall>i<length (uploadFileInput rounding_form).
               steadyProgress (uploadFileInput rounding_form ! i) (rounding_net i)"
    by (simp add: rounding_form_def rounding_net_def)
  note first = progress_never_decreases [OF rounding_run this]
  have steady: "steadyProgress (example_files ! 0) (example_net 0)"
    "steadyProgress (example_files ! 1) (example_net 1)"
    by (simp_all add: steadyProgress_def reportedLoads_def example_defs)
  then have "\<forall>i<length (uploadFileInput example_form).
               steadyProgress (uploadFileInput example_form ! i) (example_net i)"
    by (simp add: example_length less_Suc_eq numeral_2_eq_2)
  note second = progress_never_decreases [OF example_run this]
  have "reportedPercents (events rounding_result) = [55, 57, 60, 100]"
    "reportedPercents (events example_result) = [14, 43, 71, 100]"
    by (simp_all add: rounding_result_def example_result_def reportedPercents_def)
  then show ?thesis
    using first second one steady rounding_run example_run by simp
qed

text \<open>
  C8, as the code has it. After the loop the accumulated byte counter is the sum of the
  declared sizes of all files of the batch, whether they arrived or not. The final
  progress update shows 100 percent when that sum is positive, also when files failed,
  and 0 percent when it is zero, that is, when every file of the batch is empty.
\<close>

theorem final_progress_update:
  assumes "performUpload form net fo = Inr r"
  shows "totalLoaded r = sum_list (map file_size (uploadFileInput form)) \<and>
         last (reportedPercents (events r)) =
           (if 0 < sum_list (map file_size (uploadFileInput form)) then 100 else 0)"
proof -
  have "overallPercentOf (grandTotalOf form) (grandTotalOf form) =
          (if 0 < grandTotalOf form then 100 else 0)"
    by (cases "grandTotalOf form = 0")
       (simp_all add: overallPercentOf_zero_total overallPercentOf_full)
  then show ?thesis
    by (simp add: performUpload_Inr(4) [OF assms] uploadAll_totalLoaded
        performUpload_percents [OF assms] grandTotalOf_def)
qed

theorem final_progress_update_witness:
  "performUpload example_form example_net FetchRejected = Inr example_result \<and>
   failCount example_result = 1 \<and> totalLoaded example_result = 7 \<and>
   last (reportedPercents (events example_result)) = 100"
  using final_progress_update [OF example_run] example_run
  by (simp add: example_defs example_result_def)

text \<open>
  The claim as the specification states it, that the final update always shows 100
  percent, fails for a batch of one empty file: its final update shows 0 percent.
\<close>

theorem final_progress_empty_batch:
  "performUpload empty_file_form empty_file_net (FetchResolved 200) = Inr empty_file_result \<and>
   totalLoaded empty_file_result = sum_list (map file_size (uploadFileInput empty_file_form)) \<and>
   last (reportedPercents (events empty_file_result)) = 0 \<and>
   last (reportedPercents (events empty_file_result)) \<noteq> 100"
  by (simp add: empty_file_form_def empty_file_net_def empty_file_result_def model_defs
      overallPercentOf_zero_total reportedPercents_def)

section \<open>The protection request after the loop\<close>

lemma setFolderProtection_calls:
  assumes "uploadFileInput form \<noteq> []" and "uploadModeFolder form" and "enableProtection form"
  shows "protectionCalls (setFolderProtection form n fo) =
           (if 0 < n \<and> webkitRelativePath (hd (uploadFileInput form)) \<noteq> [] \<and>
               folderRootOf form \<noteq> []
            then [(folderRootOf form, protectionPassword form, uploadFileKey form)] else [])"
  using assms
  by (cases "uploadFileInput form"; cases fo)
     (simp_all add: setFolderProtection_def folderBasePathOf_def folderRootOf_def
       protectionCalls_def Let_def)

lemma setFolderProtection_paths:
  "\<forall>q\<in>set (protectionCalls (setFolderProtection form n fo)). fst q = folderRootOf form"
  by (cases "uploadFileInput form"; cases fo)
     (auto simp: setFolderProtection_def folderBasePathOf_def folderRootOf_def
       protectionCalls_def Let_def)

lemma performUpload_protectionCalls:
  assumes "performUpload form net fo = Inr r"
  shows "protectionCalls (events r) =
           protectionCalls (setFolderProtection form (successCount r) fo)"
  by (simp add: performUpload_Inr(2,5) [OF assms] uploadAll_protectionCalls)

lemma uploadRequests_empty_iff:
  "uploadRequests evs = [] \<longleftrightarrow> (\<forall>e\<in>set evs. xhrSent e = [])"
  by (simp add: uploadRequests_def)

lemma protectionCalls_empty_iff:
  "protectionCalls evs = [] \<longleftrightarrow> (\<forall>e\<in>set evs. protectionCall e = [])"
  by (simp add: protectionCalls_def)

lemma no_upload_after_protection:
  assumes "performUpload form net fo = Inr r"
  shows "uploadRequests (dropWhile (\<lambda>e. protectionCall e = []) (events r)) = []"
proof -
  let ?P = "\<lambda>e. protectionCall e = []"
  let ?prot = "setFolderProtection form (successCount (uploadAll form net)) fo"
  have loop: "\<forall>e\<in>set (events (uploadAll form net)). ?P e"
    using uploadAll_protectionCalls [of form net] by (simp add: protectionCalls_empty_iff)
  have "dropWhile ?P (events r) = dropWhile ?P ?prot"
    using loop by (simp add: performUpload_Inr(5) [OF assms] dropWhile_append2)
  moreover have "\<forall>e\<in>set ?prot. xhrSent e = []"
    using setFolderProtection_requests [of form "successCount (uploadAll form net)" fo]
    by (simp only: uploadRequests_empty_iff)
  ultimately show ?thesis
    by (auto simp: uploadRequests_empty_iff dest: set_dropWhileD)
qed

text \<open>
  C1, as the code has it. In a folder upload with protection, the protection request is
  sent exactly once, for the folder root of the batch, with the key of the uploads and
  the protection password, if and only if at least one file succeeded and a folder root
  was derived: the first file carries a relative path and the root is not the empty
  string. Otherwise no request is sent. No upload follows the request, and whether the
  request is answered or rejected the batch ends with the same counts.
\<close>

theorem deferred_protection_call:
  assumes "performUpload form net fo = Inr r"
    and "uploadModeFolder form" and "enableProtection form"
  shows "protectionCalls (events r) =
           (if 0 < successCount r \<and> webkitRelativePath (hd (uploadFileInput form)) \<noteq> [] \<and>
               folderRootOf form \<noteq> []
            then [(folderRootOf form, protectionPassword form, uploadFileKey form)] else []) \<and>
         (\<forall>q\<in>set (uploadRequests (events r)). fst (snd q) = uploadFileKey form) \<and>
         uploadRequests (dropWhile (\<lambda>e. protectionCall e = []) (events r)) = [] \<and>
         (\<forall>fo'. \<exists>r'. performUpload form net fo' = Inr r' \<and>
                  successCount r' = successCount r \<and> failCount r' = failCount r)"
proof -
  have files: "uploadFileInput form \<noteq> []"
    using performUpload_Inr(1) [OF assms(1)] by (simp add: batchStarts_def)
  have "protectionCalls (events r) =
           (if 0 < successCount r \<and> webkitRelativePath (hd (uploadFileInput form)) \<noteq> [] \<and>
               folderRootOf form \<noteq> []
            then [(folderRootOf form, protectionPassword form, uploadFileKey form)] else [])"
    by (simp only: performUpload_protectionCalls [OF assms(1)]
        setFolderProtection_calls [OF files assms(2,3)])
  moreover have "\<forall>q\<in>set (uploadRequests (events r)). fst (snd q) = uploadFileKey form"
    by (auto simp: performUpload_requests [OF assms(1)])
  moreover note no_upload_after_protection [OF assms(1)]
  moreover have "\<exists>r'. performUpload form net fo' = Inr r' \<and>
                  successCount r' = successCount r \<and> failCount r' = failCount r" for fo'
  proof -
    obtain r' where r': "performUpload form net fo' = Inr r'"
      using performUpload_starts [OF performUpload_Inr(1) [OF assms(1)]] by blast
    then show ?thesis
      by (simp add: performUpload_Inr(2,3) [OF assms(1)] performUpload_Inr(2,3) [OF r'])
  qed
  ultimately show ?thesis
    by blast
qed

theorem deferred_protection_call_witness:
  "performUpload example_form example_net FetchRejected = Inr example_result \<and>
   uploadModeFolder example_form \<and> enableProtection example_form \<and>
   successCount example_result = 1 \<and> failCount example_result = 1 \<and>
   protectionCalls (events example_result) = [(''docs/photos'', ''x'', ''k'')] \<and>
   (\<exists>r'. performUpload example_form example_net (FetchResolved 200) = Inr r' \<and>
         successCount r' = 1 \<and> failCount r' = 1)"
proof -
  have mode: "uploadModeFolder example_form" "enableProtection example_form"
    by (simp_all add: example_form_def)
  from deferred_protection_call [OF example_run mode]
  have "\<exists>r'. performUpload example_form example_net (FetchResolved 200) = Inr r' \<and>
         successCount r' = successCount example_result \<and>
         failCount r' = failCount example_result"
    by blast
  then show ?thesis
    using example_run mode by (simp add: example_result_def protectionCalls_def)
qed

text \<open>
  The claim as the specification states it, that the request is sent whenever a file
  succeeded, fails when the first file has no relative path: the upload succeeds and no
  protection request is sent.
\<close>

theorem protection_skipped_without_folder_root:
  "uploadModeFolder loose_file_form \<and> enableProtection loose_file_form \<and>
   performUpload loose_file_form plain_ok_net (FetchResolved 200) = Inr loose_file_result \<and>
   successCount loose_file_result = 1 \<and>
   protectionCalls (events loose_file_result) = []"
  by (simp add: loose_file_form_def plain_ok_net_def loose_file_result_def model_defs
      overallPercentOf_full protectionCalls_def)

section \<open>Upload targets in folder mode\<close>

lemma normalizeSeparators_id:
  "CHR 0x5C \<notin> set p \<Longrightarrow> normalizeSeparators p = p"
  by (induction p) (auto simp: normalizeSeparators_def)

text \<open>
  C5, as the code has it. In a folder upload, a file with a declared relative path is
  sent to that path under the target folder, with every backslash of the path replaced
  by a slash and nothing stripped from it: the target folder, a slash, and the path, or
  the path alone when the target folder is the root. A path without backslashes is thus
  used in full as it was declared. A protection request names the folder root: the first
  segment of the first file's path, after the same replacement, under the target folder.
\<close>

theorem folder_upload_targets:
  assumes "performUpload form net fo = Inr r" and "uploadModeFolder form"
  shows "(\<forall>i<length (uploadFileInput form).
            webkitRelativePath (uploadFileInput form ! i) \<noteq> [] \<longrightarrow>
            fst (uploadRequests (events r) ! i) =
              ''/upload/'' @ joinPath (targetPathOf form)
                 (normalizeSeparators (webkitRelativePath (uploadFileInput form ! i)))) \<and>
         (\<forall>i<length (uploadFileInput form).
            webkitRelativePath (uploadFileInput form ! i) \<noteq> [] \<and>
            CHR 0x5C \<notin> set (webkitRelativePath (uploadFileInput form ! i)) \<longrightarrow>
            fst (uploadRequests (events r) ! i) =
              ''/upload/'' @ joinPath (targetPathOf form)
                 (webkitRelativePath (uploadFileInput form ! i))) \<and>
         (\<forall>q\<in>set (protectionCalls (events r)). fst q = folderRootOf form)"
proof -
  have "\<forall>q\<in>set (protectionCalls (events r)). fst q = folderRootOf form"
    using setFolderProtection_paths [of form "successCount r" fo]
    by (simp only: performUpload_protectionCalls [OF assms(1)])
  then show ?thesis
    using assms(2)
    by (simp add: performUpload_requests [OF assms(1)] uploadUrl_def normalizeSeparators_id)
qed

theorem folder_upload_targets_witness:
  "performUpload example_form example_net FetchRejected = Inr example_result \<and>
   uploadModeFolder example_form \<and>
   map fst (uploadRequests (events example_result)) =
     [''/upload/docs/photos/a.txt'', ''/upload/docs/photos/sub/b.txt''] \<and>
   fst (uploadRequests (events example_result) ! 1) =
     ''/upload/'' @ joinPath (targetPathOf example_form)
        (webkitRelativePath (uploadFileInput example_form ! 1)) \<and>
   map fst (protectionCalls (events example_result)) = [folderRootOf example_form]"
proof -
  have mode: "uploadModeFolder example_form"
    by (simp add: example_form_def)
  have second: "(1::nat) < length (uploadFileInput example_form)"
    "webkitRelativePath (uploadFileInput example_form ! 1) \<noteq> []"
    "CHR 0x5C \<notin> set (webkitRelativePath (uploadFileInput example_form ! 1))"
    by (simp_all add: example_defs)
  from folder_upload_targets [OF example_run mode] second
  have "fst (uploadRequests (events example_result) ! 1) =
     ''/upload/'' @ joinPath (targetPathOf example_form)
        (webkitRelativePath (uploadFileInput example_form ! 1))"
    by blast
  then show ?thesis
    using example_run mode
    by (simp add: example_result_def uploadRequests_def protectionCalls_def folderRootOf_def
        example_defs targetPathOf_def stripSlashes_def joinPath_def firstSegment_def
        normalizeSeparators_def)
qed

text \<open>
  The claim as the specification states it, that the target is the declared path in
  full, fails for a file whose name contains a backslash: the request goes to the path
  with a slash in its place.
\<close>

theorem backslash_path_is_rewritten:
  "uploadModeFolder backslash_form \<and>
   performUpload backslash_form plain_ok_net (FetchResolved 200) = Inr backslash_result \<and>
   map fst (uploadRequests (events backslash_result)) = [''/upload/docs/photos/a/b.txt''] \<and>
   ''/upload/docs/photos/a/b.txt'' \<noteq>
     ''/upload/'' @ ''docs'' @ ''/'' @ webkitRelativePath (hd (uploadFileInput backslash_form))"
  by (simp add: backslash_form_def backslash_file_def backslash_name_def plain_ok_net_def
      backslash_result_def model_defs overallPercentOf_full uploadRequests_def)

section \<open>Entering delete mode\<close>

lemma performDelete_key:
  "map_of (request_headers (performDelete itemsToDelete deleteKey)) ''X-Delete-Key'' = Some deleteKey"
  by (simp add: performDelete_def)

lemma deleteModalSubmitClick_nonempty:
  assumes "deleteKeyConfigured st" and "keyAttempt \<noteq> []"
  shows "deleteModalSubmitClick keyAttempt st =
           st\<lparr>deleteModalError := [], enteredDeleteKey := Some keyAttempt, deleteMode := True,
              deleteKeyModalActive := False,
              deleteSelectedDisabled := \<not> list_ex snd (fileListCheckboxes st)\<rparr>"
  using assms
  by (simp add: deleteModalSubmitClick_def enterDeleteMode_def checkAnyCheckboxSelected_def Let_def)

lemma checked_after_update:
  assumes "i < length cbs"
  shows "list_ex snd (cbs[i := (v, True)])" and "filter snd (cbs[i := (v, True)]) \<noteq> []"
proof -
  have "(v, True) \<in> set (cbs[i := (v, True)])"
    using assms by (simp add: set_update_memI)
  then show "list_ex snd (cbs[i := (v, True)])"
    by (force simp: list_ex_iff)
  then show "filter snd (cbs[i := (v, True)]) \<noteq> []"
    by (simp add: filter_empty_conv list_ex_iff)
qed

lemma select_and_confirm:
  assumes "deleteKeyConfigured st" and "enteredDeleteKey st = Some key" and "key \<noteq> []"
    and "i < length (fileListCheckboxes st)" and "\<not> snd (fileListCheckboxes st ! i)"
  shows "fetches (confirmDeleteConfirmClick (deleteSelectedClick (checkboxChange i st))) =
           fetches st @
           [performDelete
              (map fst (filter snd
                 ((fileListCheckboxes st)[i := (fst (fileListCheckboxes st ! i), True)]))) key]"
  using assms checked_after_update [OF assms(4), of "fst (fileListCheckboxes st ! i)"]
  by (simp add: checkboxChange_def checkAnyCheckboxSelected_def deleteSelectedClick_def
      confirmDeleteConfirmClick_def Let_def)

text \<open>
  C9. On a page with a configured delete key, submitting the key dialog with any
  non-empty string enters delete mode and keeps that string as the key, without sending
  a request; only the empty string is refused, with the message that the key cannot be
  empty. The client never holds the configured key. Selecting an entry and confirming
  then sends the first request, to \<open>/api/delete-items\<close>, with that string in the
  \<open>X-Delete-Key\<close> header.
\<close>

theorem delete_mode_needs_only_nonempty_key:
  assumes "deleteKeyConfigured st"
  shows "(keyAttempt \<noteq> [] \<longrightarrow>
            enteredDeleteKey (deleteModalSubmitClick keyAttempt st) = Some keyAttempt \<and>
            deleteMode (deleteModalSubmitClick keyAttempt st) \<and>
            fetches (deleteModalSubmitClick keyAttempt st) = fetches st) \<and>
         (keyAttempt = [] \<longrightarrow>
            deleteModalSubmitClick keyAttempt st =
              st\<lparr>deleteModalError := ''Key cannot be empty.''\<rparr>) \<and>
         (keyAttempt \<noteq> [] \<and> i < length (fileListCheckboxes st) \<and>
          \<not> snd (fileListCheckboxes st ! i) \<longrightarrow>
            fetches (confirmDeleteConfirmClick (deleteSelectedClick
                       (checkboxChange i (deleteModalSubmitClick keyAttempt st)))) =
              fetches st @
              [performDelete
                 (map fst (filter snd
                    ((fileListCheckboxes st)[i := (fst (fileListCheckboxes st ! i), True)])))
                 keyAttempt]) \<and>
         request_url (performDelete items keyAttempt) = ''/api/delete-items'' \<and>
         map_of (request_headers (performDelete items keyAttempt)) ''X-Delete-Key'' =
           Some keyAttempt"
proof -
  have entered: "enteredDeleteKey (deleteModalSubmitClick keyAttempt st) = Some keyAttempt \<and>
            deleteMode (deleteModalSubmitClick keyAttempt st) \<and>
            fetches (deleteModalSubmitClick keyAttempt st) = fetches st"
    if "keyAttempt \<noteq> []"
    by (simp add: deleteModalSubmitClick_nonempty [OF assms that])
  have refused: "deleteModalSubmitClick keyAttempt st =
              st\<lparr>deleteModalError := ''Key cannot be empty.''\<rparr>"
    if "keyAttempt = []"
    using assms that by (simp add: deleteModalSubmitClick_def)
  have sent: "fetches (confirmDeleteConfirmClick (deleteSelectedClick
                       (checkboxChange i (deleteModalSubmitClick keyAttempt st)))) =
              fetches st @
              [performDelete
                 (map fst (filter snd
                    ((fileListCheckboxes st)[i := (fst (fileListCheckboxes st ! i), True)])))
                 keyAttempt]"
    if "keyAttempt \<noteq> []" "i < length (fileListCheckboxes st)" "\<not> snd (fileListCheckboxes st ! i)"
    using select_and_confirm [of "deleteModalSubmitClick keyAttempt st" keyAttempt i] that assms
    by (simp add: deleteModalSubmitClick_nonempty [OF assms that(1)])
  show ?thesis
    using entered refused sent by (simp add: performDelete_key) (simp add: performDelete_def)
qed

theorem delete_mode_needs_only_nonempty_key_witness:
  "deleteKeyConfigured example_page \<and>
   enteredDeleteKey (deleteModalSubmitClick ''wrong'' example_page) = Some ''wrong'' \<and>
   deleteMode (deleteModalSubmitClick ''wrong'' example_page) \<and>
   fetches (deleteModalSubmitClick ''wrong'' example_page) = [] \<and>
   fetches (confirmDeleteConfirmClick (deleteSelectedClick
              (checkboxChange 1 (deleteModalSubmitClick ''wrong'' example_page)))) =
     [performDelete [''docs/old-folder''] ''wrong''] \<and>
   deleteModalError (deleteModalSubmitClick [] example_page) = ''Key cannot be empty.'' \<and>
   enteredDeleteKey (deleteModalSubmitClick [] example_page) = None"
proof -
  have page: "deleteKeyConfigured example_page"
    by (simp add: example_page_def)
  have box: "(1::nat) < length (fileListCheckboxes example_page)"
    "\<not> snd (fileListCheckboxes example_page ! 1)"
    by (simp_all add: example_page_def)
  note key = delete_mode_needs_only_nonempty_key [OF page, of "''wrong''" 1]
  note empty = delete_mode_needs_only_nonempty_key [OF page, of "[]"]
  have "fetches (confirmDeleteConfirmClick (deleteSelectedClick
              (checkboxChange 1 (deleteModalSubmitClick ''wrong'' example_page)))) =
     [performDelete [''docs/old-folder''] ''wrong'']"
    using key box by (simp add: example_page_def)
  moreover have "deleteModalError (deleteModalSubmitClick [] example_page) = ''Key cannot be empty.''"
    "enteredDeleteKey (deleteModalSubmitClick [] example_page) = None"
    using empty by (simp_all add: example_page_def)
  moreover have "enteredDeleteKey (deleteModalSubmitClick ''wrong'' example_page) = Some ''wrong''"
    "deleteMode (deleteModalSubmitClick ''wrong'' example_page)"
    "fetches (deleteModalSubmitClick ''wrong'' example_page) = []"
    using key by (simp_all add: example_page_def)
  ultimately show ?thesis
    using page by simp
qed

section \<open>A delete batch with a wrong key\<close>

lemma deleteItems_right_key_example:
  "deleteItems ''secret'' ''secret'' [[''docs'', ''old-folder''], [''missing.txt'']] example_storage =
     (\<lparr>success_count = 1, fail_count = 1, errors = [([''missing.txt''], NotFound)]\<rparr>,
      \<lparr>entries = [[''docs''], [''docs'', ''old-file.txt'']],
       removals = [[''docs'', ''old-folder'']]\<rparr>)"
  by (simp add: deleteItems_def removeRecursive_def example_storage_def)

text \<open>
  C6. When the supplied key differs from the configured delete key, the batch reports no
  success and the storage is left as it was: no entry is removed and no removal is
  performed.
\<close>

theorem delete_wrong_key_fails_fast:
  assumes "suppliedKey \<noteq> configuredKey"
  shows "success_count (fst (deleteItems configuredKey suppliedKey paths st)) = 0 \<and>
         snd (deleteItems configuredKey suppliedKey paths st) = st"
  using assms by (simp add: deleteItems_def)

theorem delete_wrong_key_fails_fast_witness:
  "''wrong'' \<noteq> ''secret'' \<and>
   success_count (fst (deleteItems ''secret'' ''wrong'' [[''docs'', ''old-folder'']] example_storage)) = 0 \<and>
   entries (snd (deleteItems ''secret'' ''wrong'' [[''docs'', ''old-folder'']] example_storage)) =
     entries example_storage \<and>
   removals (snd (deleteItems ''secret'' ''wrong'' [[''docs'', ''old-folder'']] example_storage)) = []"
proof -
  have key: "''wrong'' \<noteq> ''secret''"
    by simp
  from delete_wrong_key_fails_fast [OF key, of "[[''docs'', ''old-folder'']]" example_storage]
  show ?thesis
    by (simp add: example_storage_def)
qed

section \<open>Nearest protected ancestor\<close>

declare isProtected.simps [simp del]

lemma isProtected_Nil: "isProtected reg [] = None"
  by (subst isProtected.simps) (simp split: option.split)

lemma prefix_full_length: "prefix q r \<Longrightarrow> length r \<le> length q \<Longrightarrow> q = r"
  by (auto simp: prefix_def)

lemma isProtected_snoc:
  "isProtected reg (p @ [s]) =
     (case reg (p @ [s]) of Some key \<Rightarrow> Some key | None \<Rightarrow> isProtected reg p)"
  by (subst isProtected.simps) (simp split: option.split)

lemma isProtected_None_iff:
  "isProtected reg p = None \<longleftrightarrow> (\<forall>q. q \<noteq> [] \<and> prefix q p \<longrightarrow> reg q = None)"
proof (induction p rule: rev_induct)
  case Nil
  show ?case by (simp add: isProtected_Nil)
next
  case (snoc s p)
  show ?case
  proof (cases "reg (p @ [s])")
    case None
    then show ?thesis
      using snoc.IH by (auto simp: isProtected_snoc)
  next
    case (Some key)
    then show ?thesis
      by (auto simp: isProtected_snoc)
  qed
qed

lemma isProtected_Some_iff:
  "isProtected reg p = Some key \<longleftrightarrow>
     (\<exists>q. q \<noteq> [] \<and> prefix q p \<and> reg q = Some key \<and>
          (\<forall>q'. q' \<noteq> [] \<and> prefix q' p \<and> reg q' \<noteq> None \<longrightarrow> length q' \<le> length q))"
proof (induction p rule: rev_induct)
  case Nil
  show ?case by (simp add: isProtected_Nil)
next
  case (snoc s p)
  show ?case
  proof (cases "reg (p @ [s])")
    case None
    have "(\<exists>q. q \<noteq> [] \<and> prefix q (p @ [s]) \<and> reg q = Some key \<and>
            (\<forall>q'. q' \<noteq> [] \<and> prefix q' (p @ [s]) \<and> reg q' \<noteq> None \<longrightarrow> length q' \<le> length q))
          \<longleftrightarrow>
          (\<exists>q. q \<noteq> [] \<and> prefix q p \<and> reg q = Some key \<and>
            (\<forall>q'. q' \<noteq> [] \<and> prefix q' p \<and> reg q' \<noteq> None \<longrightarrow> length q' \<le> length q))"
      using None by (simp only: prefix_snoc) (metis option.distinct(1))
    then show ?thesis
      using None snoc.IH by (simp add: isProtected_snoc)
  next
    case (Some key')
    have deepest: "length q' \<le> length (p @ [s])" if "prefix q' (p @ [s])" for q'
      using that by (rule prefix_length_le)
    show ?thesis
    proof
      assume "isProtected reg (p @ [s]) = Some key"
      then have "key' = key"
        using Some by (simp add: isProtected_snoc)
      then show "\<exists>q. q \<noteq> [] \<and> prefix q (p @ [s]) \<and> reg q = Some key \<and>
            (\<forall>q'. q' \<noteq> [] \<and> prefix q' (p @ [s]) \<and> reg q' \<noteq> None \<longrightarrow> length q' \<le> length q)"
        using Some deepest by (intro exI [of _ "p @ [s]"]) simp
    next
      assume "\<exists>q. q \<noteq> [] \<and> prefix q (p @ [s]) \<and> reg q = Some key \<and>
            (\<forall>q'. q' \<noteq> [] \<and> prefix q' (p @ [s]) \<and> reg q' \<noteq> None \<longrightarrow> length q' \<le> length q)"
      then obtain q where q: "prefix q (p @ [s])" "reg q = Some key"
        and far: "\<forall>q'. q' \<noteq> [] \<and> prefix q' (p @ [s]) \<and> reg q' \<noteq> None \<longrightarrow> length q' \<le> length q"
        by blast
      have "length (p @ [s]) \<le> length q"
        using far Some by (metis append_is_Nil_conv not_Cons_self2 option.distinct(1) prefix_order.order_refl)
      with q(1) have "q = p @ [s]"
        by (rule prefix_full_length)
      then show "isProtected reg (p @ [s]) = Some key"
        using q(2) by (simp add: isProtected_snoc)
    qed
  qed
qed

text \<open>
  C7. \<open>isProtected reg p\<close> gives the key of a non-root prefix of \<open>p\<close>, \<open>p\<close> itself
  included, that has an entry and is at least as long as every other such prefix, that
  is, the key of the nearest protected ancestor; it gives nothing exactly when no such
  prefix has an entry.
\<close>

theorem isProtected_nearest_ancestor:
  "(isProtected reg p = Some key \<longleftrightarrow>
      (\<exists>q. q \<noteq> [] \<and> prefix q p \<and> reg q = Some key \<and>
           (\<forall>q'. q' \<noteq> [] \<and> prefix q' p \<and> reg q' \<noteq> None \<longrightarrow> length q' \<le> length q))) \<and>
   (isProtected reg p = None \<longleftrightarrow> (\<forall>q. q \<noteq> [] \<and> prefix q p \<longrightarrow> reg q = None))"
  using isProtected_Some_iff [of reg p key] isProtected_None_iff [of reg p] by blast

theorem isProtected_nearest_ancestor_witness:
  "isProtected example_registry [''private'', ''inner'', ''x.txt''] = Some ''inner-key'' \<and>
   isProtected example_registry [''private'', ''other'', ''x.txt''] = Some ''secret123'' \<and>
   isProtected example_registry [''docs'', ''open.txt''] = None \<and>
   (\<exists>q. q \<noteq> [] \<and> prefix q [''private'', ''inner'', ''x.txt''] \<and>
        example_registry q = Some ''inner-key'' \<and>
        (\<forall>q'. q' \<noteq> [] \<and> prefix q' [''private'', ''inner'', ''x.txt''] \<and>
              example_registry q' \<noteq> None \<longrightarrow> length q' \<le> length q))"
proof -
  have 1: "isProtected example_registry [''private'', ''inner'', ''x.txt''] = Some ''inner-key''"
    by (simp add: example_registry_def isProtected.simps)
  have 2: "isProtected example_registry [''private'', ''other'', ''x.txt''] = Some ''secret123''"
    by (simp add: example_registry_def isProtected.simps)
  have 3: "isProtected example_registry [''docs'', ''open.txt''] = None"
    by (simp add: example_registry_def isProtected.simps)
  from 1 isProtected_nearest_ancestor
    [of example_registry "[''private'', ''inner'', ''x.txt'']" "''inner-key''"]
  show ?thesis
    using 1 2 3 by blast
qed

end
